theory Spec2Isabelle
  imports Complex_Main
begin

section \<open>Exceptions\<close>

text \<open>
  The Python exceptions that the modelled code can raise. A function that can raise
  returns a sum, with \<open>Inl\<close> for the exception.
\<close>

datatype exn =
    ValueError | ZeroDivisionError | OverflowError | NameError | AttributeError | OSError
  | OperationalError

section \<open>Python strings and integers\<close>

text \<open>
  A Python \<^verbatim>\<open>str\<close> is modelled as a \<^typ>\<open>string\<close> whose characters are the code
  points 0 to 255; code points above 255 have no counterpart in the model. Within that
  range the decimal digits are \<^verbatim>\<open>0\<close> to \<^verbatim>\<open>9\<close> only, and \<^verbatim>\<open>str.isspace\<close>, which
  \<^verbatim>\<open>str.strip()\<close> and the regular expression class \<^verbatim>\<open>\s\<close> follow, holds for the code
  points 9 to 13, 28 to 32, 133 and 160.
\<close>

definition code_point :: "char \<Rightarrow> nat" where
  "code_point c = of_char c"

definition py_isspace :: "char \<Rightarrow> bool" where
  "py_isspace c =
     (let n = code_point c
      in (9 \<le> n \<and> n \<le> 13) \<or> (28 \<le> n \<and> n \<le> 32) \<or> n = 133 \<or> n = 160)"

definition py_isdigit :: "char \<Rightarrow> bool" where
  "py_isdigit c = (let n = code_point c in 48 \<le> n \<and> n \<le> 57)"

text \<open>\<^verbatim>\<open>s.strip()\<close>: leading and trailing whitespace removed.\<close>

definition py_strip :: "string \<Rightarrow> string" where
  "py_strip s = rev (dropWhile py_isspace (rev (dropWhile py_isspace s)))"

text \<open>\<^verbatim>\<open>sub in s\<close> for two strings: \<open>sub\<close> occurs in \<open>s\<close> as a contiguous slice.\<close>

fun py_in :: "string \<Rightarrow> string \<Rightarrow> bool" where
  "py_in sub [] = (sub = [])"
| "py_in sub (c # cs) = (take (length sub) (c # cs) = sub \<or> py_in sub cs)"

text \<open>
  The digit table of CPython's integer parser: \<^verbatim>\<open>0\<close>-\<^verbatim>\<open>9\<close> are 0 to 9, the letters of
  either case are 10 to 35, and every other character is 37.
\<close>

definition digit_value :: "char \<Rightarrow> nat" where
  "digit_value c =
     (let n = code_point c
      in if 48 \<le> n \<and> n \<le> 57 then n - 48
         else if 97 \<le> n \<and> n \<le> 122 then n - 87
         else if 65 \<le> n \<and> n \<le> 90 then n - 55
         else 37)"

text \<open>
  The whitespace that \<^verbatim>\<open>int(s, 16)\<close> skips around the literal: the ASCII characters
  9 to 13 and 32, and, of the code points above 127, those that \<^verbatim>\<open>str.isspace\<close>
  accepts (133 and 160), which CPython rewrites to a blank before parsing. The code
  points 28 to 31 are not skipped.
\<close>

definition int_isspace :: "char \<Rightarrow> bool" where
  "int_isspace c =
     (let n = code_point c in (9 \<le> n \<and> n \<le> 13) \<or> n = 32 \<or> n = 133 \<or> n = 160)"

text \<open>
  The digit scan of \<^verbatim>\<open>int(s, 16)\<close>: hexadecimal digits with single underscores between
  them. The arguments are the text left to scan, the previous character, the value so far
  and the number of digits read; the result is \<open>None\<close> for a doubled or a trailing
  underscore, and otherwise the unread rest, the value and the digit count.
\<close>

fun scan_digits16 :: "string \<Rightarrow> char \<Rightarrow> int \<Rightarrow> nat \<Rightarrow> (string \<times> int \<times> nat) option" where
  "scan_digits16 [] prev acc n = (if prev = CHR ''_'' then None else Some ([], acc, n))"
| "scan_digits16 (c # cs) prev acc n =
     (if c = CHR ''_'' then (if prev = CHR ''_'' then None else scan_digits16 cs c acc n)
      else if digit_value c < 16 then scan_digits16 cs c (acc * 16 + int (digit_value c)) (Suc n)
      else if prev = CHR ''_'' then None
      else Some (c # cs, acc, n))"

text \<open>
  \<^verbatim>\<open>int(s, 16)\<close>: surrounding whitespace, an optional sign, an optional \<^verbatim>\<open>0x\<close> or
  \<^verbatim>\<open>0X\<close> prefix (one underscore may follow it), then the digits. Anything else raises
  \<^verbatim>\<open>ValueError\<close>. A power-of-two base has no limit on the number of digits.
\<close>

definition strip_sign :: "string \<Rightarrow> int \<times> string" where
  "strip_sign s =
     (case s of
        [] \<Rightarrow> (1, s)
      | c # r \<Rightarrow> if c = CHR ''+'' then (1, r) else if c = CHR ''-'' then (- 1, r) else (1, s))"

definition strip_prefix16 :: "string \<Rightarrow> string" where
  "strip_prefix16 s =
     (case s of
        c0 # c1 # r \<Rightarrow>
          if c0 = CHR ''0'' \<and> (c1 = CHR ''x'' \<or> c1 = CHR ''X'')
          then (case r of [] \<Rightarrow> r | u # r' \<Rightarrow> if u = CHR ''_'' then r' else r)
          else s
      | _ \<Rightarrow> s)"

definition py_int16 :: "string \<Rightarrow> exn + int" where
  "py_int16 s =
     (let (sign, s2) = strip_sign (dropWhile int_isspace s);
          s3 = strip_prefix16 s2
      in if s3 \<noteq> [] \<and> hd s3 = CHR ''_'' then Inl ValueError
         else (case scan_digits16 s3 (CHR 0x00) 0 0 of
                 None \<Rightarrow> Inl ValueError
               | Some (rest, v, n) \<Rightarrow>
                   if n = 0 then Inl ValueError
                   else if dropWhile int_isspace rest \<noteq> [] then Inl ValueError
                   else Inr (sign * v)))"

text \<open>
  CPython refuses to convert between \<^verbatim>\<open>int\<close> and a decimal string of more than
  \<^verbatim>\<open>sys.int_info.default_max_str_digits\<close> = 4300 digits, raising \<^verbatim>\<open>ValueError\<close>.
\<close>

definition max_str_digits :: nat where
  "max_str_digits = 4300"

text \<open>
  \<^verbatim>\<open>int(keys_str)\<close> where \<^verbatim>\<open>keys_str\<close> consists of decimal digits (it is a match of
  \<^verbatim>\<open>[\d,]+\<close> with the commas removed): \<^verbatim>\<open>ValueError\<close> for the empty string and for
  more digits than the limit.
\<close>

definition py_int10 :: "string \<Rightarrow> exn + int" where
  "py_int10 s =
     (if s = [] \<or> \<not> list_all py_isdigit s \<or> max_str_digits < length s then Inl ValueError
      else Inr (foldl (\<lambda>acc c. acc * 10 + int (digit_value c)) 0 s))"

text \<open>
  Formatting an integer in decimal (\<^verbatim>\<open>f"{n:,}"\<close>) raises \<^verbatim>\<open>ValueError\<close> when the number
  has more digits than the limit.
\<close>

definition format_int_raises :: "int \<Rightarrow> bool" where
  "format_int_raises n = (10 ^ max_str_digits \<le> \<bar>n\<bar>)"

text \<open>
  True division \<^verbatim>\<open>a / b\<close> of two integers: \<^verbatim>\<open>ZeroDivisionError\<close> for \<^verbatim>\<open>b == 0\<close>,
  \<^verbatim>\<open>OverflowError\<close> when the correctly rounded quotient is not a finite double, that is
  from \<open>2 ^ 1024 - 2 ^ 970\<close> on. The quotient itself is a float that the coordinator only
  displays; only whether the division raises is modelled.
\<close>

definition true_divide_raises :: "int \<Rightarrow> int \<Rightarrow> exn option" where
  "true_divide_raises a b =
     (if b = 0 then Some ZeroDivisionError
      else if (2 ^ 1024 - 2 ^ 970) * \<bar>b\<bar> \<le> \<bar>a\<bar> then Some OverflowError
      else None)"

text \<open>
  \<^verbatim>\<open>float(s)\<close> where \<^verbatim>\<open>s\<close> is a match of \<^verbatim>\<open>[\d.]+\<close>: it raises \<^verbatim>\<open>ValueError\<close> unless
  \<^verbatim>\<open>s\<close> has at least one digit and at most one point.
\<close>

definition float_raises :: "string \<Rightarrow> bool" where
  "float_raises s = (\<not> (\<exists>c \<in> set s. py_isdigit c) \<or> 1 < length (filter (\<lambda>c. c = CHR ''.'') s))"

text \<open>
  \<^verbatim>\<open>hex(n)\<close> is \<^verbatim>\<open>0x\<close> and the lower-case digits, with a leading \<^verbatim>\<open>-\<close> for a negative
  number. \<open>hex_digits_of\<close> gives the digits of a number that is not negative.
\<close>

definition hex_char :: "int \<Rightarrow> char" where
  "hex_char d = (''0123456789abcdef'' ! nat d)"

function hex_digits_of :: "int \<Rightarrow> string" where
  "hex_digits_of n = (if n < 16 then [hex_char n] else hex_digits_of (n div 16) @ [hex_char (n mod 16)])"
  by pat_completeness auto
termination
  by (relation "measure nat") auto

declare hex_digits_of.simps [simp del]

definition py_hex :: "int \<Rightarrow> string" where
  "py_hex n = (if n < 0 then ''-0x'' @ hex_digits_of (- n) else ''0x'' @ hex_digits_of n)"

text \<open>\<^verbatim>\<open>s.upper()\<close> on the characters that \<^verbatim>\<open>hex(n)[2:]\<close> can hold.\<close>

definition upper_char :: "char \<Rightarrow> char" where
  "upper_char c =
     (case map_of (zip ''abcdefghijklmnopqrstuvwxyz'' ''ABCDEFGHIJKLMNOPQRSTUVWXYZ'') c of
        None \<Rightarrow> c
      | Some u \<Rightarrow> u)"

definition py_upper :: "string \<Rightarrow> string" where
  "py_upper s = map upper_char s"

text \<open>
  \<^verbatim>\<open>hex(n)[2:].upper()\<close>, the text under which the ledger stores a boundary, and
  \<^verbatim>\<open>hex(n)[2:]\<close>, the text handed to the worker. For a negative number the slice drops
  \<^verbatim>\<open>-0\<close> and keeps the \<^verbatim>\<open>x\<close>.
\<close>

definition hex_upper :: "int \<Rightarrow> string" where
  "hex_upper n = py_upper (drop 2 (py_hex n))"

definition hex_lower :: "int \<Rightarrow> string" where
  "hex_lower n = drop 2 (py_hex n)"

section \<open>BlockManager\<close>

text \<open>
  \<^verbatim>\<open>class BlockManager\<close>: the four attributes set by \<^verbatim>\<open>__init__\<close>. Python integers are
  unbounded, so every field is an \<^typ>\<open>int\<close>.
\<close>

record block_manager =
  range_start :: int
  range_end :: int
  block_size :: int
  total_blocks :: int

text \<open>
  \<^verbatim>\<open>BlockManager.__init__(range_start, range_end, block_size=None)\<close>. The default block
  size is the literal \<^verbatim>\<open>0x1000000000\<close>. Python's \<^verbatim>\<open>//\<close> is floor division, which is
  \<open>div\<close> on \<^typ>\<open>int\<close>; it raises \<^verbatim>\<open>ZeroDivisionError\<close> for a zero divisor.
\<close>

definition default_block_size :: int where
  "default_block_size = 0x1000000000"

definition BlockManager_init :: "int \<Rightarrow> int \<Rightarrow> int option \<Rightarrow> exn + block_manager" where
  "BlockManager_init rs re bs_arg =
     (let bs = (case bs_arg of None \<Rightarrow> default_block_size | Some b \<Rightarrow> b)
      in if bs = 0 then Inl ZeroDivisionError
         else Inr \<lparr>range_start = rs, range_end = re, block_size = bs,
                   total_blocks = (re - rs) div bs + 1\<rparr>)"

text \<open>
  \<^verbatim>\<open>BlockManager.get_block(block_index)\<close>. The source has no bounds check and no raise:
  the result is a pair for every index.
\<close>

definition get_block :: "block_manager \<Rightarrow> int \<Rightarrow> int \<times> int" where
  "get_block bm block_index =
     (let block_start = range_start bm + block_index * block_size bm;
          block_end = min (block_start + block_size bm - 1) (range_end bm)
      in (block_start, block_end))"

text \<open>\<^verbatim>\<open>BlockManager.get_block_from_key(key_value)\<close>; \<open>None\<close> is Python's \<^verbatim>\<open>None\<close>.\<close>

definition get_block_from_key :: "block_manager \<Rightarrow> int \<Rightarrow> int option" where
  "get_block_from_key bm key_value =
     (if key_value < range_start bm \<or> key_value > range_end bm then None
      else Some ((key_value - range_start bm) div block_size bm))"

section \<open>PoolScraper: decoding range identifiers\<close>

text \<open>
  A decoded block is the pair \<^verbatim>\<open>(block_start, block_end)\<close>. The two decoders run over
  the digit alphabet \<^verbatim>\<open>'0123456789ABCDEF'\<close> and append to the list \<^verbatim>\<open>blocks\<close>; a
  \<^verbatim>\<open>ValueError\<close> of \<^verbatim>\<open>int(..., 16)\<close> leaves the loop.
\<close>

definition hex_alphabet :: string where
  "hex_alphabet = ''0123456789ABCDEF''"

text \<open>
  The loop of \<^verbatim>\<open>_decode_range_id\<close>: for each \<^verbatim>\<open>x\<close>, the boundaries are
  \<^verbatim>\<open>int(hex_prefix + x + hex_suffix + '3000000000', 16)\<close> and
  \<^verbatim>\<open>int(hex_prefix + x + hex_suffix + '3FFFFFFFFF', 16)\<close>.
\<close>

fun decode_range_loop :: "string \<Rightarrow> string \<Rightarrow> string \<Rightarrow> (int \<times> int) list \<Rightarrow> exn + (int \<times> int) list" where
  "decode_range_loop hex_prefix hex_suffix [] blocks = Inr blocks"
| "decode_range_loop hex_prefix hex_suffix (x # xs) blocks =
     (case py_int16 (hex_prefix @ [x] @ hex_suffix @ ''3000000000'') of
        Inl e \<Rightarrow> Inl e
      | Inr block_start \<Rightarrow>
          (case py_int16 (hex_prefix @ [x] @ hex_suffix @ ''3FFFFFFFFF'') of
             Inl e \<Rightarrow> Inl e
           | Inr block_end \<Rightarrow>
               decode_range_loop hex_prefix hex_suffix xs (blocks @ [(block_start, block_end)])))"

text \<open>
  \<^verbatim>\<open>PoolScraper._decode_range_id(range_id)\<close>: \<^verbatim>\<open>range_id[0:2]\<close> is the prefix and
  \<^verbatim>\<open>range_id[3:]\<close> the suffix.
\<close>

definition decode_range_id :: "string \<Rightarrow> exn + (int \<times> int) list" where
  "decode_range_id range_id =
     (let hex_prefix = take 2 range_id;
          hex_suffix = drop 3 range_id
      in decode_range_loop hex_prefix hex_suffix hex_alphabet [])"

text \<open>
  The two nested loops of \<^verbatim>\<open>_decode_challenge\<close>, over \<^verbatim>\<open>x1\<close> (outer) and \<^verbatim>\<open>x2\<close>
  (inner), with the tails \<^verbatim>\<open>'0003000000000'\<close> and \<^verbatim>\<open>'0003FFFFFFFFF'\<close>.
\<close>

fun decode_challenge_inner :: "string \<Rightarrow> char \<Rightarrow> string \<Rightarrow> (int \<times> int) list \<Rightarrow> exn + (int \<times> int) list" where
  "decode_challenge_inner challenge_prefix x1 [] blocks = Inr blocks"
| "decode_challenge_inner challenge_prefix x1 (x2 # xs) blocks =
     (case py_int16 (challenge_prefix @ [x1] @ [x2] @ ''0003000000000'') of
        Inl e \<Rightarrow> Inl e
      | Inr block_start \<Rightarrow>
          (case py_int16 (challenge_prefix @ [x1] @ [x2] @ ''0003FFFFFFFFF'') of
             Inl e \<Rightarrow> Inl e
           | Inr block_end \<Rightarrow>
               decode_challenge_inner challenge_prefix x1 xs (blocks @ [(block_start, block_end)])))"

fun decode_challenge_outer :: "string \<Rightarrow> string \<Rightarrow> (int \<times> int) list \<Rightarrow> exn + (int \<times> int) list" where
  "decode_challenge_outer challenge_prefix [] blocks = Inr blocks"
| "decode_challenge_outer challenge_prefix (x1 # xs) blocks =
     (case decode_challenge_inner challenge_prefix x1 hex_alphabet blocks of
        Inl e \<Rightarrow> Inl e
      | Inr blocks' \<Rightarrow> decode_challenge_outer challenge_prefix xs blocks')"

definition decode_challenge :: "string \<Rightarrow> exn + (int \<times> int) list" where
  "decode_challenge challenge_prefix = decode_challenge_outer challenge_prefix hex_alphabet []"

text \<open>
  The two lexical shapes that \<^verbatim>\<open>scrape_scanned_ranges\<close> extracts before it decodes: a
  match of \<^verbatim>\<open>[0-9A-F]{2}X[0-9A-F]{4,5}\<close>, and the group of \<^verbatim>\<open>[0-9A-F]{2}\<close> in the
  challenge pattern.
\<close>

definition is_upper_hex :: "char \<Rightarrow> bool" where
  "is_upper_hex c = (let n = code_point c in (48 \<le> n \<and> n \<le> 57) \<or> (65 \<le> n \<and> n \<le> 70))"

definition is_range_id :: "string \<Rightarrow> bool" where
  "is_range_id s =
     ((length s = 7 \<or> length s = 8) \<and> list_all is_upper_hex (take 2 s)
      \<and> s ! 2 = CHR ''X'' \<and> list_all is_upper_hex (drop 3 s))"

definition is_challenge_prefix :: "string \<Rightarrow> bool" where
  "is_challenge_prefix s = (length s = 2 \<and> list_all is_upper_hex s)"

text \<open>
  The number that a string of hexadecimal digits denotes, most significant digit first.
  It is used to state what the decoders compute.
\<close>

definition hex_value :: "string \<Rightarrow> int" where
  "hex_value s = foldl (\<lambda>acc c. acc * 16 + int (digit_value c)) 0 s"

section \<open>Pattern exclusion\<close>

text \<open>
  The loop of \<^verbatim>\<open>has_repeated_chars\<close>, with its two variables \<^verbatim>\<open>count\<close> and
  \<^verbatim>\<open>prev_char\<close>. Iterating a string yields one-character strings, and \<^verbatim>\<open>prev_char\<close>
  starts as the empty string, so it is a \<^typ>\<open>string\<close> here. The \<^verbatim>\<open>return True\<close>
  inside the loop ends it.
\<close>

fun has_repeated_loop :: "string \<Rightarrow> int \<Rightarrow> int \<Rightarrow> string \<Rightarrow> bool" where
  "has_repeated_loop [] min_repeats count prev_char = False"
| "has_repeated_loop (char # rest) min_repeats count prev_char =
     (if [char] = prev_char
      then (if count + 1 \<ge> min_repeats \<and> char \<noteq> CHR ''0'' then True
            else has_repeated_loop rest min_repeats (count + 1) prev_char)
      else has_repeated_loop rest min_repeats 1 [char])"

definition has_repeated_chars :: "string \<Rightarrow> int \<Rightarrow> bool" where
  "has_repeated_chars hex_string min_repeats = has_repeated_loop hex_string min_repeats 1 []"

text \<open>
  The repeated-run predicate as the specification words it: the string contains a run of
  \<open>N\<close> or more identical consecutive characters other than \<^verbatim>\<open>0\<close>. A run of \<open>N\<close> or
  more contains a run of exactly \<open>N\<close>, so this is: some character other than \<^verbatim>\<open>0\<close>
  stands \<open>N\<close> times in a row somewhere in the string.
\<close>

definition repeated_run :: "int \<Rightarrow> string \<Rightarrow> bool" where
  "repeated_run N s = (\<exists>pre c post. c \<noteq> CHR ''0'' \<and> s = pre @ replicate (nat N) c @ post)"

text \<open>\<^verbatim>\<open>is_all_alpha_or_numeric\<close>: the exclusive or of the two \<^verbatim>\<open>any(...)\<close>.\<close>

definition is_all_alpha_or_numeric :: "string \<Rightarrow> bool" where
  "is_all_alpha_or_numeric hex_string =
     (let has_alpha = (\<exists>c \<in> set hex_string. c \<in> set ''ABCDEFabcdef'');
          has_numeric = (\<exists>c \<in> set hex_string. c \<in> set ''0123456789'')
      in has_alpha \<noteq> has_numeric)"

text \<open>
  \<^verbatim>\<open>should_skip_block_by_pattern\<close>. The three check boxes \<^verbatim>\<open>exclude_iter3\<close>,
  \<^verbatim>\<open>exclude_iter4\<close> and \<^verbatim>\<open>exclude_alphanum\<close> are passed as booleans; the result is the
  pair of the flag and the reason (\<open>None\<close> for Python's \<^verbatim>\<open>None\<close>).
\<close>

definition should_skip_block_by_pattern :: "bool \<Rightarrow> bool \<Rightarrow> bool \<Rightarrow> int \<Rightarrow> int \<Rightarrow> bool \<times> string option" where
  "should_skip_block_by_pattern iter3 iter4 alphanum block_start block_end =
     (let start_hex = hex_upper block_start;
          end_hex = hex_upper block_end
      in if iter3 \<and> (has_repeated_chars start_hex 3 \<or> has_repeated_chars end_hex 3)
         then (True, Some ''repeated-3'')
         else if iter4 \<and> (has_repeated_chars start_hex 4 \<or> has_repeated_chars end_hex 4)
         then (True, Some ''repeated-4'')
         else if alphanum \<and> (is_all_alpha_or_numeric start_hex \<or> is_all_alpha_or_numeric end_hex)
         then (True, Some ''alphanum-only'')
         else (False, None))"

section \<open>ScanDatabase\<close>

text \<open>
  The two tables, each with the primary key \<^verbatim>\<open>block_start\<close> (the boundary as upper-case
  hexadecimal text). \<^verbatim>\<open>pool_scanned\<close> maps the key to \<^verbatim>\<open>block_end\<close>. \<^verbatim>\<open>my_scanned\<close> is the
  list of its rows \<^verbatim>\<open>(block_start, block_end, keys_checked)\<close> in the order of their
  row identifiers, which is the order in which \<^verbatim>\<open>SUM\<close> reads them. The columns
  \<^verbatim>\<open>scraped_at\<close> and \<^verbatim>\<open>scanned_at\<close> hold the wall-clock time of the write; no modelled
  function reads them, and they are left out.
\<close>

record scan_database =
  pool_scanned :: "string \<rightharpoonup> string"
  my_scanned :: "(string \<times> string \<times> int) list"

text \<open>
  The loop of \<^verbatim>\<open>add_pool_blocks\<close>: the row is counted as a duplicate when its key exists,
  and \<^verbatim>\<open>INSERT OR REPLACE\<close> writes it in both cases.
\<close>

fun add_pool_blocks_loop :: "(int \<times> int) list \<Rightarrow> (string \<rightharpoonup> string) \<Rightarrow> nat \<Rightarrow> nat \<Rightarrow> (string \<rightharpoonup> string) \<times> nat \<times> nat" where
  "add_pool_blocks_loop [] tbl added_count duplicate_count = (tbl, added_count, duplicate_count)"
| "add_pool_blocks_loop ((block_start, block_end) # rest) tbl added_count duplicate_count =
     (let block_start_hex = hex_upper block_start;
          block_end_hex = hex_upper block_end;
          exists = (tbl block_start_hex \<noteq> None)
      in add_pool_blocks_loop rest (tbl(block_start_hex \<mapsto> block_end_hex))
           (if exists then added_count else added_count + 1)
           (if exists then duplicate_count + 1 else duplicate_count))"

definition add_pool_blocks :: "scan_database \<Rightarrow> (int \<times> int) list \<Rightarrow> scan_database \<times> nat \<times> nat" where
  "add_pool_blocks db blocks =
     (let (tbl, added_count, duplicate_count) = add_pool_blocks_loop blocks (pool_scanned db) 0 0
      in (db\<lparr>pool_scanned := tbl\<rparr>, added_count, duplicate_count))"

text \<open>
  \<^verbatim>\<open>add_my_block\<close>. The column \<^verbatim>\<open>keys_checked\<close> is an SQLite \<^verbatim>\<open>INTEGER\<close>: binding a
  Python integer outside the signed 64-bit range raises \<^verbatim>\<open>OverflowError\<close>, and nothing
  is written. \<^verbatim>\<open>INSERT OR REPLACE\<close> deletes the row that has the key, if there is one, and
  inserts the new row with a row identifier above all others.
\<close>

definition add_my_block :: "scan_database \<Rightarrow> int \<Rightarrow> int \<Rightarrow> int \<Rightarrow> exn + scan_database" where
  "add_my_block db block_start block_end keys =
     (if keys < - (2 ^ 63) \<or> 2 ^ 63 \<le> keys then Inl OverflowError
      else Inr (db\<lparr>my_scanned :=
                     filter (\<lambda>(s, e, k). s \<noteq> hex_upper block_start) (my_scanned db)
                     @ [(hex_upper block_start, hex_upper block_end, keys)]\<rparr>))"

text \<open>\<^verbatim>\<open>is_block_scanned\<close>: a row counts only if both boundaries are equal.\<close>

definition is_block_scanned :: "scan_database \<Rightarrow> int \<Rightarrow> int \<Rightarrow> bool \<times> string option" where
  "is_block_scanned db block_start block_end =
     (let block_start_hex = hex_upper block_start;
          block_end_hex = hex_upper block_end
      in if pool_scanned db block_start_hex = Some block_end_hex then (True, Some ''pool'')
         else if list_ex (\<lambda>(s, e, k). s = block_start_hex \<and> e = block_end_hex) (my_scanned db)
         then (True, Some ''me'')
         else (False, None))"

text \<open>
  \<^verbatim>\<open>SELECT SUM(keys_checked) FROM my_scanned\<close>: SQLite adds the values row by row in 64-bit
  arithmetic and fails with \<^verbatim>\<open>integer overflow\<close>, which Python raises as
  \<^verbatim>\<open>sqlite3.OperationalError\<close>, as soon as a running total leaves the signed 64-bit range.
\<close>

fun sum_keys_checked :: "int list \<Rightarrow> int \<Rightarrow> exn + int" where
  "sum_keys_checked [] total_keys = Inr total_keys"
| "sum_keys_checked (k # ks) total_keys =
     (if total_keys + k < - (2 ^ 63) \<or> 2 ^ 63 \<le> total_keys + k then Inl OperationalError
      else sum_keys_checked ks (total_keys + k))"

text \<open>
  \<^verbatim>\<open>get_stats\<close>. The two \<^verbatim>\<open>COUNT(*)\<close> queries cannot fail and their results are only
  displayed; the result kept here is \<^verbatim>\<open>total_keys_by_me\<close>.
\<close>

definition get_stats :: "scan_database \<Rightarrow> exn + int" where
  "get_stats db = sum_keys_checked (map (\<lambda>(s, e, k). k) (my_scanned db)) 0"

section \<open>The coordinator\<close>

text \<open>
  The content that \<^verbatim>\<open>save_current_state\<close> writes to the state file and
  \<^verbatim>\<open>load_previous_state\<close> reads back (the time stamp and the puzzle number, which no
  modelled function reads, are left out).
\<close>

record saved_state =
  saved_block_index :: int
  saved_keys_checked :: int
  saved_range_start :: string
  saved_range_end :: string

text \<open>
  \<^verbatim>\<open>StateManager.load_state\<close>: \<open>None\<close> when there is no file and when \<^verbatim>\<open>json.load\<close>
  raises, which it does for an integer literal of more than 4300 digits; the exception is
  caught inside.
\<close>

definition load_state :: "saved_state option \<Rightarrow> saved_state option" where
  "load_state file =
     (case file of
        None \<Rightarrow> None
      | Some state \<Rightarrow>
          if format_int_raises (saved_block_index state)
             \<or> format_int_raises (saved_keys_checked state)
          then None else Some state)"

text \<open>The handle that \<^verbatim>\<open>subprocess.Popen(cmd, ...)\<close> returns, with its command line.\<close>

datatype popen = Popen "string list"

text \<open>
  What the coordinator does to its surroundings, in the order in which it does it:
  signalling the worker, starting a thread and queueing a callback on the GLib main loop.
\<close>

datatype effect =
    Terminate
  | Thread_run_block_search
  | Timeout_add_find_next_block
  | Idle_add_on_block_completed

text \<open>
  The attributes of \<^verbatim>\<open>KeyHuntSmartGUI\<close> that the block search reads and writes. The text
  entries and check boxes of the window are fields with their content; labels, progress
  bars, the log and the caches of the drawing code are left out, as they only display.
  \<^verbatim>\<open>retry_count\<close> is \<open>None\<close> while the object has no such attribute. \<^verbatim>\<open>state_file\<close> is
  the state file on disk, \<open>None\<close> when it is missing or does not hold a complete JSON
  document.
\<close>

record gui =
  scan_db :: scan_database
  state_file :: "saved_state option"
  block_mgr :: "block_manager option"
  process :: "popen option"
  is_running :: bool
  is_paused :: bool
  keys_checked :: int
  session_keys :: int
  matches_found :: int
  current_block :: "(int \<times> int) option"
  current_block_index :: int
  retry_count :: "int option"
  range_start_entry :: string
  range_end_entry :: string
  block_size_entry :: string
  keyhunt_path :: string
  gpu_id :: string
  target_entry :: string
  exclude_iter3 :: bool
  exclude_iter4 :: bool
  exclude_alphanum :: bool
  effects :: "effect list"

text \<open>How a call ends: it returns, or an exception leaves it.\<close>

datatype outcome = Returned | Raised exn

text \<open>
  The names bound at module level: the imports, the four classes, \<^verbatim>\<open>main\<close> and the three
  version strings. \<^verbatim>\<open>time\<close> is not among them: the only \<^verbatim>\<open>import time\<close> of the file is
  inside \<^verbatim>\<open>on_window_close\<close> and binds a local name there. A call \<^verbatim>\<open>time.sleep(n)\<close> in any
  other function therefore raises \<^verbatim>\<open>NameError\<close> when it looks the name up.
\<close>

definition module_names :: "string list" where
  "module_names =
     [''__version__'', ''__build_date__'', ''__build_name__'', ''gi'', ''Gtk'', ''GLib'',
      ''Pango'', ''Gdk'', ''cairo'', ''subprocess'', ''threading'', ''os'', ''re'', ''json'',
      ''sqlite3'', ''requests'', ''BeautifulSoup'', ''datetime'', ''timedelta'', ''Path'',
      ''PoolScraper'', ''BlockManager'', ''ScanDatabase'', ''StateManager'',
      ''KeyHuntSmartGUI'', ''main'']"

definition time_sleep :: "exn option" where
  "time_sleep = (if ''time'' \<in> set module_names then None else Some NameError)"

text \<open>\<^verbatim>\<open>if self.process: self.process.terminate()\<close>\<close>

definition terminate_process :: "gui \<Rightarrow> gui" where
  "terminate_process st =
     (if process st \<noteq> None then st\<lparr>effects := effects st @ [Terminate]\<rparr> else st)"

text \<open>
  \<^verbatim>\<open>save_current_state\<close>. \<^verbatim>\<open>StateManager.save_state\<close> opens the file for writing, which
  empties it, and \<^verbatim>\<open>json.dump\<close> writes the entries in order; an integer of more than 4300
  digits makes it raise \<^verbatim>\<open>ValueError\<close> with the document cut off there. \<^verbatim>\<open>save_state\<close>
  catches the exception, so that \<^verbatim>\<open>save_current_state\<close> always returns.
\<close>

definition save_current_state :: "gui \<Rightarrow> gui" where
  "save_current_state st =
     st\<lparr>state_file :=
          (if format_int_raises (current_block_index st) \<or> format_int_raises (keys_checked st)
           then None
           else Some \<lparr>saved_block_index = current_block_index st,
                      saved_keys_checked = keys_checked st,
                      saved_range_start = range_start_entry st,
                      saved_range_end = range_end_entry st\<rparr>)\<rparr>"

text \<open>
  \<^verbatim>\<open>load_previous_state\<close>, for a state file that \<^verbatim>\<open>save_current_state\<close> wrote: the block
  index and the count are integers that \<^verbatim>\<open>json.load\<close> accepted, so that formatting them
  for the log cannot fail.
\<close>

definition load_previous_state :: "gui \<Rightarrow> gui" where
  "load_previous_state st =
     (case load_state (state_file st) of
        None \<Rightarrow> st
      | Some state \<Rightarrow>
          st\<lparr>current_block_index := saved_block_index state,
             keys_checked := saved_keys_checked state,
             range_start_entry := saved_range_start state,
             range_end_entry := saved_range_end state\<rparr>)"

text \<open>\<^verbatim>\<open>on_stop\<close>\<close>

definition on_stop :: "gui \<Rightarrow> gui" where
  "on_stop st =
     (let st1 = st\<lparr>is_running := False, is_paused := False\<rparr>;
          st2 = (if process st1 \<noteq> None then (terminate_process st1)\<lparr>process := None\<rparr> else st1)
      in save_current_state st2)"

text \<open>
  \<^verbatim>\<open>find_next_block\<close>. The \<^verbatim>\<open>while\<close> loop with its counter \<^verbatim>\<open>checks_done\<close>; the index
  grows in every round that does not leave the loop, so the loop ends. After 100 skipped
  blocks the function queues itself on the main loop and returns, leaving
  \<^verbatim>\<open>current_block\<close> as it was. On an eligible block it stores the block, sets
  \<^verbatim>\<open>keys_checked\<close> to 0, writes the block index in decimal to the log, which raises
  \<^verbatim>\<open>ValueError\<close> for an index of more than 4300 digits, and starts the search thread.
\<close>

function find_next_block_loop :: "block_manager \<Rightarrow> gui \<Rightarrow> nat \<Rightarrow> outcome \<times> gui" where
  "find_next_block_loop bm st checks_done =
     (if current_block_index st < total_blocks bm
      then (let block = get_block bm (current_block_index st)
            in if fst (is_block_scanned (scan_db st) (fst block) (snd block))
                  \<or> fst (should_skip_block_by_pattern (exclude_iter3 st) (exclude_iter4 st)
                            (exclude_alphanum st) (fst block) (snd block))
               then (if checks_done + 1 \<ge> 100
                     then (Returned,
                           st\<lparr>current_block_index := current_block_index st + 1,
                              effects := effects st @ [Timeout_add_find_next_block]\<rparr>)
                     else find_next_block_loop bm
                            (st\<lparr>current_block_index := current_block_index st + 1\<rparr>)
                            (checks_done + 1))
               else (let st1 = st\<lparr>current_block := Some block, keys_checked := 0\<rparr>
                     in if format_int_raises (current_block_index st1)
                        then (Raised ValueError, st1)
                        else (Returned,
                              st1\<lparr>effects := effects st1 @ [Thread_run_block_search]\<rparr>)))
      else (Returned, st\<lparr>current_block := None, is_running := False\<rparr>))"
  by pat_completeness auto
termination
  by (relation "measure (\<lambda>(bm, st, checks_done). nat (total_blocks bm - current_block_index st))")
     auto

declare find_next_block_loop.simps [simp del]

text \<open>
  \<^verbatim>\<open>self.block_mgr\<close> is \<^verbatim>\<open>None\<close> until \<^verbatim>\<open>on_start\<close> has stored a \<^verbatim>\<open>BlockManager\<close>;
  reading \<^verbatim>\<open>total_blocks\<close> from \<^verbatim>\<open>None\<close> raises \<^verbatim>\<open>AttributeError\<close>.
\<close>

definition find_next_block :: "gui \<Rightarrow> outcome \<times> gui" where
  "find_next_block st =
     (case block_mgr st of
        None \<Rightarrow> (Raised AttributeError, st)
      | Some bm \<Rightarrow> find_next_block_loop bm st 0)"

text \<open>
  \<^verbatim>\<open>build_keyhunt_command\<close>: the resume point \<^verbatim>\<open>actual_start\<close>, and the argument list
  with the closed range \<^verbatim>\<open>actual_start:block_end\<close> in lower-case hexadecimal. The
  function writes to the log as it goes: the count \<^verbatim>\<open>keys_checked\<close> in decimal when it is
  positive, and at the end the number of keys to search, in decimal and divided by
  \<^verbatim>\<open>1e12\<close>. The decimal texts raise \<^verbatim>\<open>ValueError\<close> beyond 4300 digits, and the division
  converts the integer to a float, which raises \<^verbatim>\<open>OverflowError\<close> from
  \<open>2 ^ 1024 - 2 ^ 970\<close> on.
\<close>

definition actual_start :: "gui \<Rightarrow> int \<Rightarrow> int \<Rightarrow> int" where
  "actual_start st block_start block_end =
     (if keys_checked st > 0
      then (if block_start + keys_checked st > block_end then block_end
            else block_start + keys_checked st)
      else block_start)"

definition build_keyhunt_command :: "gui \<Rightarrow> int \<Rightarrow> int \<Rightarrow> exn + string list" where
  "build_keyhunt_command st block_start block_end =
     (if keys_checked st > 0 \<and> format_int_raises (keys_checked st) then Inl ValueError
      else (let keys_to_search = block_end - actual_start st block_start block_end + 1
            in if format_int_raises keys_to_search then Inl ValueError
               else if 2 ^ 1024 - 2 ^ 970 \<le> \<bar>keys_to_search\<bar> then Inl OverflowError
               else Inr [keyhunt_path st, ''-t'', ''0'', ''-g'', ''--gpui'', gpu_id st,
                         ''--gpux'', ''256,256'', ''-m'', ''address'', ''--coin'', ''BTC'',
                         ''--range'',
                         hex_lower (actual_start st block_start block_end) @ '':''
                           @ hex_lower block_end,
                         ''-o'', ''Found.txt'', target_entry st]))"

subsection \<open>The worker's output\<close>

text \<open>
  \<^verbatim>\<open>re.search(r'([\d.]+)\s*Mk/s', line)\<close>: the first position from which a run of digits
  and points, then whitespace, then \<^verbatim>\<open>Mk/s\<close> can be read; the result is the group. The
  run is always taken whole: after a shorter run the next character is a digit or a
  point, which neither \<^verbatim>\<open>\s\<close> nor \<^verbatim>\<open>M\<close> matches.
\<close>

definition speed_match_at :: "string \<Rightarrow> string option" where
  "speed_match_at s =
     (let g = takeWhile (\<lambda>c. py_isdigit c \<or> c = CHR ''.'') s;
          r = dropWhile py_isspace (dropWhile (\<lambda>c. py_isdigit c \<or> c = CHR ''.'') s)
      in if g \<noteq> [] \<and> take 4 r = ''Mk/s'' then Some g else None)"

fun speed_search :: "string \<Rightarrow> string option" where
  "speed_search [] = None"
| "speed_search (c # cs) =
     (case speed_match_at (c # cs) of Some g \<Rightarrow> Some g | None \<Rightarrow> speed_search cs)"

text \<open>
  \<^verbatim>\<open>re.search(r'T:\s*([\d,]+)', line)\<close>: the first \<^verbatim>\<open>T:\<close> that is followed, after any
  whitespace, by a digit or a comma; the group is the whole run of digits and commas.
\<close>

definition keys_match_at :: "string \<Rightarrow> string option" where
  "keys_match_at s =
     (if take 2 s = ''T:''
      then (let g = takeWhile (\<lambda>c. py_isdigit c \<or> c = CHR '','') (dropWhile py_isspace (drop 2 s))
            in if g \<noteq> [] then Some g else None)
      else None)"

fun keys_search :: "string \<Rightarrow> string option" where
  "keys_search [] = None"
| "keys_search (c # cs) =
     (case keys_match_at (c # cs) of Some g \<Rightarrow> Some g | None \<Rightarrow> keys_search cs)"

text \<open>
  The part of the loop body that follows a parsed key count: \<^verbatim>\<open>session_keys\<close> has been
  assigned, \<^verbatim>\<open>total_keys\<close> is formatted, and for a current block the progress fraction
  \<^verbatim>\<open>total_keys / keys_in_block\<close> and the statistics text are computed before the
  completion test \<^verbatim>\<open>total_keys >= keys_in_block\<close>. \<^verbatim>\<open>current_speed\<close> is 0 throughout
  (only \<^verbatim>\<open>process_output_line\<close>, which nothing calls, assigns it), so the ETA is the
  constant 0. The result is \<open>Inl\<close> with the exception and the state in which it was
  raised, or \<open>Inr\<close> with the new state.
\<close>

definition update_progress :: "gui \<Rightarrow> (exn \<times> gui) + gui" where
  "update_progress st =
     (let total_keys = keys_checked st + session_keys st
      in if format_int_raises total_keys then Inl (ValueError, st)
         else (case current_block st of
                 None \<Rightarrow> Inr st
               | Some (block_start, block_end) \<Rightarrow>
                   (let keys_in_block = block_end - block_start + 1;
                        remaining = keys_in_block - total_keys
                    in case true_divide_raises total_keys keys_in_block of
                         Some e \<Rightarrow> Inl (e, st)
                       | None \<Rightarrow>
                           if format_int_raises keys_in_block \<or> format_int_raises remaining
                           then Inl (ValueError, st)
                           else if total_keys \<ge> keys_in_block
                           then Inr (terminate_process (st\<lparr>is_running := False\<rparr>))
                           else Inr st)))"

text \<open>
  The two tests on a line of output:
  \<^verbatim>\<open>'Wrong args' in line or 'ERROR' in line or 'Error:' in line\<close> and
  \<^verbatim>\<open>'PubAddress:' in line or 'Priv' in line\<close>.
\<close>

definition is_error_line :: "string \<Rightarrow> bool" where
  "is_error_line line = (py_in ''Wrong args'' line \<or> py_in ''ERROR'' line \<or> py_in ''Error:'' line)"

definition is_match_line :: "string \<Rightarrow> bool" where
  "is_match_line line = (py_in ''PubAddress:'' line \<or> py_in ''Priv'' line)"

text \<open>
  The loop body of \<^verbatim>\<open>run_block_search\<close> for one stripped, non-empty line; the flag is
  \<^verbatim>\<open>keyhunt_error\<close>. On a match line the counter \<^verbatim>\<open>matches_found\<close> is incremented and
  written in decimal for its label before the search is stopped.
\<close>

definition process_line :: "gui \<Rightarrow> string \<Rightarrow> bool \<Rightarrow> (exn \<times> gui) + (gui \<times> bool)" where
  "process_line st line keyhunt_error =
     (if is_error_line line
      then Inr (st, True)
      else if is_match_line line
      then (let st1 = st\<lparr>matches_found := matches_found st + 1\<rparr>
            in if format_int_raises (matches_found st1) then Inl (ValueError, st1)
               else Inr (terminate_process (st1\<lparr>is_running := False\<rparr>), keyhunt_error))
      else if (case speed_search line of None \<Rightarrow> False | Some g \<Rightarrow> float_raises g)
      then Inl (ValueError, st)
      else (case keys_search line of
              None \<Rightarrow> Inr (st, keyhunt_error)
            | Some g \<Rightarrow>
                (case py_int10 (filter (\<lambda>c. c \<noteq> CHR '','') g) of
                   Inl e \<Rightarrow> Inl (e, st)
                 | Inr k \<Rightarrow>
                     (case update_progress (st\<lparr>session_keys := k\<rparr>) of
                        Inl x \<Rightarrow> Inl x
                      | Inr st' \<Rightarrow> Inr (st', keyhunt_error)))))"

subsection \<open>Other threads\<close>

text \<open>
  The search runs in a thread of its own while the handlers of the window run in the
  main thread, and they share the attributes. What another thread does during a search
  is a sequence of writes to the attributes that \<^verbatim>\<open>run_block_search\<close> reads again after
  it has started: \<^verbatim>\<open>on_pause\<close> writes \<^verbatim>\<open>is_paused\<close> and \<^verbatim>\<open>keys_checked\<close>, \<^verbatim>\<open>on_stop\<close>
  writes \<^verbatim>\<open>is_running\<close>, \<^verbatim>\<open>is_paused\<close> and \<^verbatim>\<open>process\<close>, \<^verbatim>\<open>handle_block_collision\<close> writes
  \<^verbatim>\<open>process\<close>, \<^verbatim>\<open>keys_checked\<close> and \<^verbatim>\<open>current_block\<close>, \<^verbatim>\<open>on_block_completed\<close> writes
  \<^verbatim>\<open>retry_count\<close> as well.
\<close>

datatype assignment =
    Set_is_running bool
  | Set_is_paused bool
  | Set_process "popen option"
  | Set_keys_checked int
  | Set_current_block "(int \<times> int) option"
  | Set_retry_count int

fun assign :: "gui \<Rightarrow> assignment \<Rightarrow> gui" where
  "assign st (Set_is_running b) = st\<lparr>is_running := b\<rparr>"
| "assign st (Set_is_paused b) = st\<lparr>is_paused := b\<rparr>"
| "assign st (Set_process p) = st\<lparr>process := p\<rparr>"
| "assign st (Set_keys_checked k) = st\<lparr>keys_checked := k\<rparr>"
| "assign st (Set_current_block b) = st\<lparr>current_block := b\<rparr>"
| "assign st (Set_retry_count r) = st\<lparr>retry_count := Some r\<rparr>"

text \<open>
  What happens while the loop of \<^verbatim>\<open>run_block_search\<close> waits in \<^verbatim>\<open>readline\<close>: the worker
  prints a line, or another thread writes an attribute.
\<close>

datatype event = Line string | Other_thread assignment

text \<open>
  \<^verbatim>\<open>for line in iter(self.process.stdout.readline, '')\<close>: the list holds, in order, what
  \<^verbatim>\<open>readline\<close> returns and the writes of other threads between two reads; the empty
  string is the sentinel that ends the iteration. The counter is \<^verbatim>\<open>lines_read\<close>.
\<close>

fun read_loop :: "event list \<Rightarrow> gui \<Rightarrow> bool \<Rightarrow> int \<Rightarrow> (exn \<times> gui) + (gui \<times> bool \<times> int)" where
  "read_loop [] st keyhunt_error lines_read = Inr (st, keyhunt_error, lines_read)"
| "read_loop (Other_thread w # rest) st keyhunt_error lines_read =
     read_loop rest (assign st w) keyhunt_error lines_read"
| "read_loop (Line raw # rest) st keyhunt_error lines_read =
     (if raw = [] then Inr (st, keyhunt_error, lines_read)
      else if \<not> is_running st \<or> is_paused st then Inr (st, keyhunt_error, lines_read)
      else (let line = py_strip raw
            in if line = [] then read_loop rest st keyhunt_error lines_read
               else (case process_line st line keyhunt_error of
                       Inl x \<Rightarrow> Inl x
                     | Inr (st', keyhunt_error') \<Rightarrow>
                         read_loop rest st' keyhunt_error' (lines_read + 1))))"

text \<open>
  One run of the worker as the search thread sees it: whether \<^verbatim>\<open>Popen\<close> raises, what
  happens while the loop reads, the writes of other threads between the end of the loop
  and the wait, what \<^verbatim>\<open>wait(timeout=5)\<close> gives (the return code, or \<open>None\<close> for
  \<^verbatim>\<open>TimeoutExpired\<close>), and the writes of other threads between the wait and the final
  test. A write that falls inside the processing of a line is taken as one just before
  or after it, and the threads of two searches running at once are not interleaved.
\<close>

record worker_run =
  popen_raises :: bool
  events :: "event list"
  before_wait :: "assignment list"
  wait_result :: "int option"
  before_test :: "assignment list"

text \<open>
  \<^verbatim>\<open>run_block_search\<close> up to its final test. The command is built before the \<^verbatim>\<open>try\<close>:
  an exception there leaves the thread. Everything from \<^verbatim>\<open>Popen\<close> on is inside \<^verbatim>\<open>try\<close>,
  and the handler of \<^verbatim>\<open>except Exception\<close> sets \<^verbatim>\<open>is_running\<close> to \<^verbatim>\<open>False\<close>. The result is
  \<open>Inl\<close> when the function has ended, with the way it ended and the state, or \<open>Inr\<close> with
  the state and the values of \<^verbatim>\<open>keyhunt_error\<close>, \<^verbatim>\<open>lines_read\<close> and \<^verbatim>\<open>exit_code\<close> with which
  the final test is reached.
\<close>

definition read_until_exit :: "gui \<Rightarrow> worker_run \<Rightarrow> (outcome \<times> gui) + (gui \<times> bool \<times> int \<times> int)" where
  "read_until_exit st w =
     (case current_block st of
        None \<Rightarrow> Inl (Returned, st)
      | Some (block_start, block_end) \<Rightarrow>
          (let st0 = st\<lparr>session_keys := 0\<rparr>
           in case build_keyhunt_command st0 block_start block_end of
                Inl e \<Rightarrow> Inl (Raised e, st0)
              | Inr cmd \<Rightarrow>
                  if popen_raises w then Inl (Returned, st0\<lparr>is_running := False\<rparr>)
                  else (case read_loop (events w) (st0\<lparr>process := Some (Popen cmd)\<rparr>) False 0 of
                          Inl (e, st1) \<Rightarrow> Inl (Returned, st1\<lparr>is_running := False\<rparr>)
                        | Inr (st1, keyhunt_error, lines_read) \<Rightarrow>
                            (let st2 = foldl assign st1 (before_wait w);
                                 exit_code =
                                   (if process st2 \<noteq> None
                                    then (case wait_result w of Some rc \<Rightarrow> rc | None \<Rightarrow> - 1)
                                    else - 1);
                                 st3 = foldl assign st2 (before_test w)
                             in Inr (st3, keyhunt_error, lines_read, exit_code)))))"

text \<open>
  The end of \<^verbatim>\<open>run_block_search\<close>, from the final test on: the block is reported
  complete, or the run is a startup failure to retry, or the search stops. The retry
  sleeps before it starts the new thread, and the handler of the enclosing \<^verbatim>\<open>try\<close>
  catches what the sleep raises.
\<close>

definition finish_block_search :: "gui \<Rightarrow> bool \<Rightarrow> int \<Rightarrow> int \<Rightarrow> (exn \<times> gui) + gui" where
  "finish_block_search st keyhunt_error lines_read exit_code =
     (if \<not> is_paused st \<and> \<not> keyhunt_error \<and> (exit_code = 0 \<or> exit_code = - 15)
         \<and> lines_read \<ge> 10
      then Inr (st\<lparr>effects := effects st @ [Idle_add_on_block_completed]\<rparr>)
      else (let startup_failure = (exit_code = - 1 \<and> lines_read = 0);
                st1 = (if startup_failure \<and> retry_count st = None
                       then st\<lparr>retry_count := Some 0\<rparr> else st)
            in if startup_failure \<and> the (retry_count st1) < 3
               then (let st2 = st1\<lparr>retry_count := Some (the (retry_count st1) + 1)\<rparr>
                     in case time_sleep of
                          Some e \<Rightarrow> Inl (e, st2)
                        | None \<Rightarrow> Inr (st2\<lparr>effects := effects st2 @ [Thread_run_block_search]\<rparr>))
               else Inr (st1\<lparr>retry_count := Some 0, is_running := False\<rparr>)))"

text \<open>\<^verbatim>\<open>run_block_search\<close>\<close>

definition run_block_search :: "gui \<Rightarrow> worker_run \<Rightarrow> outcome \<times> gui" where
  "run_block_search st w =
     (case read_until_exit st w of
        Inl ended \<Rightarrow> ended
      | Inr (st3, keyhunt_error, lines_read, exit_code) \<Rightarrow>
          (case finish_block_search st3 keyhunt_error lines_read exit_code of
             Inl (e, st4) \<Rightarrow> (Returned, st4\<lparr>is_running := False\<rparr>)
           | Inr st4 \<Rightarrow> (Returned, st4)))"

subsection \<open>The handlers of the main thread\<close>

text \<open>
  \<^verbatim>\<open>update_smart_status\<close> reads the statistics of the ledger for two labels; it raises
  what \<^verbatim>\<open>get_stats\<close> raises.
\<close>

definition update_smart_status :: "gui \<Rightarrow> exn option" where
  "update_smart_status st = (case get_stats (scan_db st) of Inl e \<Rightarrow> Some e | Inr total_keys \<Rightarrow> None)"

text \<open>
  \<^verbatim>\<open>on_block_completed\<close>, the callback that records the current block in \<^verbatim>\<open>my_scanned\<close>
  and moves on. After the record is written the block index is written in decimal to the
  log and the status labels are refreshed, and either can raise, before the index is
  advanced. \<^verbatim>\<open>update_probability_dashboard\<close> divides the row counts of the two tables by
  the block count when that is positive; a table has fewer than \<open>2 ^ 63\<close> rows, so the
  divisions cannot overflow, and the function only displays. The old worker is terminated
  (and killed if that fails) before the sleep; the sleep comes before the next thread is
  started.
\<close>

definition on_block_completed :: "gui \<Rightarrow> outcome \<times> gui" where
  "on_block_completed st =
     (let st1 = st\<lparr>retry_count := Some 0\<rparr>
      in case current_block st1 of
           None \<Rightarrow> (Returned, st1)
         | Some (block_start, block_end) \<Rightarrow>
             (let total_keys_checked = keys_checked st1 + session_keys st1
              in case add_my_block (scan_db st1) block_start block_end total_keys_checked of
                   Inl e \<Rightarrow> (Raised e, st1)
                 | Inr db \<Rightarrow>
                     (let st2 = st1\<lparr>scan_db := db\<rparr>
                      in if format_int_raises (current_block_index st2)
                         then (Raised ValueError, st2)
                         else (case update_smart_status st2 of
                                 Some e \<Rightarrow> (Raised e, st2)
                               | None \<Rightarrow>
                                   (case find_next_block
                                           (st2\<lparr>current_block_index := current_block_index st2 + 1,
                                                keys_checked := 0\<rparr>) of
                                      (Raised e, st3) \<Rightarrow> (Raised e, st3)
                                    | (Returned, st3) \<Rightarrow>
                                        if current_block st3 \<noteq> None
                                        then (let st4 = (if process st3 \<noteq> None
                                                         then (terminate_process st3)\<lparr>process := None\<rparr>
                                                         else st3)
                                              in case time_sleep of
                                                   Some e \<Rightarrow> (Raised e, st4)
                                                 | None \<Rightarrow>
                                                     (Returned,
                                                      st4\<lparr>effects := effects st4
                                                            @ [Thread_run_block_search]\<rparr>))
                                        else (Returned, on_stop st3))))))"

text \<open>
  \<^verbatim>\<open>on_start\<close>. The three entries are parsed with \<^verbatim>\<open>int(..., 16)\<close> and the block manager
  is built inside \<^verbatim>\<open>try\<close>; the diagnostic lines in the same \<^verbatim>\<open>try\<close> format the block size
  and the block count in decimal and divide the block size by the estimated speed. Any
  exception there logs and returns. Then \<^verbatim>\<open>is_running\<close> is set and the first block is
  looked for.
\<close>

definition on_start :: "gui \<Rightarrow> outcome \<times> gui" where
  "on_start st =
     (if is_running st then (Returned, st)
      else (case py_int16 (range_start_entry st) of
              Inl e \<Rightarrow> (Returned, st)
            | Inr rs \<Rightarrow>
                (case py_int16 (range_end_entry st) of
                   Inl e \<Rightarrow> (Returned, st)
                 | Inr re \<Rightarrow>
                     (case py_int16 (block_size_entry st) of
                        Inl e \<Rightarrow> (Returned, st)
                      | Inr bs \<Rightarrow>
                          (case BlockManager_init rs re (Some bs) of
                             Inl e \<Rightarrow> (Returned, st)
                           | Inr bm \<Rightarrow>
                               (let st1 = st\<lparr>block_mgr := Some bm\<rparr>
                                in if format_int_raises bs then (Returned, st1)
                                   else if true_divide_raises bs 226000000 \<noteq> None
                                   then (Returned, st1)
                                   else if format_int_raises (total_blocks bm)
                                   then (Returned, st1)
                                   else (case find_next_block (st1\<lparr>is_running := True\<rparr>) of
                                           (Raised e, st2) \<Rightarrow> (Raised e, st2)
                                         | (Returned, st2) \<Rightarrow>
                                             if current_block st2 = None
                                             then (Returned, st2\<lparr>is_running := False\<rparr>)
                                             else (Returned, st2))))))))"

text \<open>
  \<^verbatim>\<open>KeyHuntSmartGUI.__init__\<close>: the attributes as the constructor sets them, the entries
  with the text that \<^verbatim>\<open>create_config_page\<close> puts in them, the three check boxes off, and
  then \<^verbatim>\<open>load_previous_state\<close>. The two arguments are what the constructor finds on disk:
  the scan database and the state file.
\<close>

definition gui_init :: "scan_database \<Rightarrow> saved_state option \<Rightarrow> gui" where
  "gui_init db file =
     load_previous_state
       \<lparr>scan_db = db, state_file = file, block_mgr = None, process = None,
        is_running = False, is_paused = False, keys_checked = 0, session_keys = 0,
        matches_found = 0, current_block = None, current_block_index = 0,
        retry_count = None,
        range_start_entry = ''7000000000000000'', range_end_entry = ''7FFFFFFFFFFFFFFF'',
        block_size_entry = ''1FFFFFFFFFF'', keyhunt_path = ''./KeyHunt-Cuda'',
        gpu_id = ''0'', target_entry = ''1PWo3JeB9jrGwfHDNpdGK54CRas7fsVzXU'',
        exclude_iter3 = False, exclude_iter4 = False, exclude_alphanum = False,
        effects = []\<rparr>"

subsection \<open>Notions used in the statements\<close>

text \<open>The lines that the worker prints during a run, in order.\<close>

fun printed_lines :: "event list \<Rightarrow> string list" where
  "printed_lines [] = []"
| "printed_lines (Line raw # rest) = raw # printed_lines rest"
| "printed_lines (Other_thread w # rest) = printed_lines rest"

text \<open>
  The lines that the loop of \<^verbatim>\<open>run_block_search\<close> can count: what is left of the
  worker's output after \<^verbatim>\<open>strip()\<close>, without the lines that are then empty.
\<close>

definition stripped_lines :: "string list \<Rightarrow> string list" where
  "stripped_lines ls = filter (\<lambda>line. line \<noteq> []) (map py_strip ls)"

text \<open>
  What a call has added to the log of effects: the log is only ever appended to, and
  \<open>new_effects st st'\<close> is what \<open>st'\<close> holds after the entries of \<open>st\<close>.
\<close>

definition new_effects :: "gui \<Rightarrow> gui \<Rightarrow> effect list" where
  "new_effects st st' = drop (length (effects st)) (effects st')"

subsection \<open>A small session\<close>

text \<open>
  The session used to instantiate the statements: an empty ledger, the master range
  \<^verbatim>\<open>400..4FF\<close> and the block size \<^verbatim>\<open>40\<close> typed into the entries (four blocks of 64
  keys), and the Start button. \<open>example_start\<close> is the coordinator after \<^verbatim>\<open>on_start\<close>,
  with block 0 selected.
\<close>

definition example_entries :: "gui \<Rightarrow> gui" where
  "example_entries st =
     st\<lparr>range_start_entry := ''400'', range_end_entry := ''4FF'', block_size_entry := ''40''\<rparr>"

definition example_start :: gui where
  "example_start =
     snd (on_start (example_entries
            (gui_init \<lparr>pool_scanned = Map.empty, my_scanned = []\<rparr> None)))"

text \<open>
  A worker that prints ten progress lines, each reporting a cumulative count of 32 keys,
  and then exits with code 0, with no other thread writing.
\<close>

definition example_worker :: worker_run where
  "example_worker =
     \<lparr>popen_raises = False,
      events = replicate 10 (Line ''[GPU: 226.00 Mk/s] [T: 32]\<newline>''),
      before_wait = [], wait_result = Some 0, before_test = []\<rparr>"

text \<open>
  A worker that prints the same ten lines and then a line with an error marker, and
  exits with code 0.
\<close>

definition error_worker :: worker_run where
  "error_worker =
     \<lparr>popen_raises = False,
      events = replicate 10 (Line ''[GPU: 226.00 Mk/s] [T: 32]\<newline>'')
               @ [Line ''ERROR: bad\<newline>''],
      before_wait = [], wait_result = Some 0, before_test = []\<rparr>"

text \<open>
  A worker that prints the same ten lines and is then terminated by a click on Pause:
  \<^verbatim>\<open>on_pause\<close> sets \<^verbatim>\<open>is_paused\<close>, adds \<^verbatim>\<open>session_keys\<close> to \<^verbatim>\<open>keys_checked\<close> and
  signals the worker, which exits with code -15.
\<close>

definition paused_worker :: worker_run where
  "paused_worker =
     \<lparr>popen_raises = False,
      events = replicate 10 (Line ''[GPU: 226.00 Mk/s] [T: 32]\<newline>'')
               @ [Other_thread (Set_is_paused True), Other_thread (Set_keys_checked 32)],
      before_wait = [], wait_result = Some (- 15), before_test = []\<rparr>"

text \<open>A worker that prints nothing and has not exited when the wait of 5 seconds ends.\<close>

definition silent_worker :: worker_run where
  "silent_worker =
     \<lparr>popen_raises = False, events = [], before_wait = [], wait_result = None,
      before_test = []\<rparr>"

text \<open>
  The same session started with a state file that a previous run left: block index 1 and
  16 keys checked in that block.
\<close>

definition example_resumed :: gui where
  "example_resumed =
     (gui_init \<lparr>pool_scanned = Map.empty, my_scanned = []\<rparr>
        (Some \<lparr>saved_block_index = 1, saved_keys_checked = 16,
                saved_range_start = ''400'', saved_range_end = ''4FF''\<rparr>))
     \<lparr>block_size_entry := ''40''\<rparr>"

section \<open>Verified properties\<close>

subsection \<open>The partition of the master range\<close>

lemma ceiling_divide_int:
  assumes "1 \<le> (b::int)" "1 \<le> n"
  shows "\<lceil>real_of_int n / real_of_int b\<rceil> = (n - 1) div b + 1"
proof -
  define q where "q = (n - 1) div b"
  define r where "r = (n - 1) mod b"
  have n: "n = q * b + r + 1" unfolding q_def r_def by simp
  have r: "0 \<le> r" "r < b" using assms unfolding r_def by simp_all
  have lo: "q * b < n" using n r by simp
  have hi: "n \<le> (q + 1) * b" using n r by (simp add: algebra_simps)
  have bpos: "0 < real_of_int b" using assms by simp
  have "real_of_int (q * b) < real_of_int n" using lo by (simp only: of_int_less_iff)
  then have lo': "real_of_int q < real_of_int n / real_of_int b"
    using bpos by (simp add: pos_less_divide_eq)
  have "real_of_int n \<le> real_of_int ((q + 1) * b)" using hi by (simp only: of_int_le_iff)
  then have hi': "real_of_int n / real_of_int b \<le> real_of_int (q + 1)"
    using bpos by (simp add: pos_divide_le_eq)
  have "\<lceil>real_of_int n / real_of_int b\<rceil> = q + 1"
    by (rule ceiling_unique) (use lo' hi' in simp_all)
  then show ?thesis by (simp add: q_def)
qed

lemma fst_get_block: "fst (get_block bm i) = range_start bm + i * block_size bm"
  by (simp add: get_block_def Let_def)

lemma snd_get_block:
  "snd (get_block bm i) = min (range_start bm + i * block_size bm + block_size bm - 1) (range_end bm)"
  by (simp add: get_block_def Let_def)

lemma index_times_size_le:
  assumes "0 < (b::int)" "i \<le> d div b"
  shows "i * b \<le> d"
proof -
  have "i * b \<le> (d div b) * b" using assms by (simp add: mult_right_mono)
  moreover have "d = (d div b) * b + d mod b" by simp
  moreover have "0 \<le> d mod b" using assms(1) by simp
  ultimately show ?thesis by linarith
qed

lemma last_block_reaches_end:
  assumes "0 < (b::int)"
  shows "d \<le> (d div b) * b + b - 1"
proof -
  have "d = (d div b) * b + d mod b" by simp
  moreover have "d mod b < b" using assms by simp
  ultimately show ?thesis by linarith
qed

text \<open>
  C3. For a master range with \<open>rs \<le> re\<close> and a block size \<open>bs \<ge> 1\<close>, the block count is
  \<open>ceil((re - rs + 1) / bs)\<close>; block 0 starts at \<open>rs\<close> and the last block ends at \<open>re\<close>;
  every block is non-empty and at most \<open>bs\<close> long; every block but the last is exactly
  \<open>bs\<close> long and is followed immediately by the next one; blocks are in increasing order
  and do not overlap; and the union of the blocks is exactly the master range.
\<close>

theorem partition_covers_master_range:
  assumes "rs \<le> re" and "1 \<le> bs" and "BlockManager_init rs re (Some bs) = Inr bm"
  shows "total_blocks bm = \<lceil>real_of_int (re - rs + 1) / real_of_int bs\<rceil>
       \<and> fst (get_block bm 0) = rs
       \<and> snd (get_block bm (total_blocks bm - 1)) = re
       \<and> (\<forall>i. 0 \<le> i \<and> i < total_blocks bm \<longrightarrow>
              fst (get_block bm i) \<le> snd (get_block bm i)
            \<and> snd (get_block bm i) - fst (get_block bm i) + 1 \<le> bs)
       \<and> (\<forall>i. 0 \<le> i \<and> i + 1 < total_blocks bm \<longrightarrow>
              snd (get_block bm i) - fst (get_block bm i) + 1 = bs
            \<and> fst (get_block bm (i + 1)) = snd (get_block bm i) + 1)
       \<and> (\<forall>i j. 0 \<le> i \<and> i < j \<and> j < total_blocks bm \<longrightarrow>
              snd (get_block bm i) < fst (get_block bm j))
       \<and> (\<Union>i\<in>{0..<total_blocks bm}. {fst (get_block bm i)..snd (get_block bm i)}) = {rs..re}"
proof -
  have bm: "bm = \<lparr>range_start = rs, range_end = re, block_size = bs,
                   total_blocks = (re - rs) div bs + 1\<rparr>"
    using assms(2,3) by (simp add: BlockManager_init_def)
  have bpos: "0 < bs" using assms(2) by simp
  have f: "\<And>i. fst (get_block bm i) = rs + i * bs" by (simp add: fst_get_block bm)
  have s: "\<And>i. snd (get_block bm i) = min (rs + i * bs + bs - 1) re"
    by (simp add: snd_get_block bm)
  have tot: "total_blocks bm = (re - rs) div bs + 1" by (simp add: bm)
  have c1: "total_blocks bm = \<lceil>real_of_int (re - rs + 1) / real_of_int bs\<rceil>"
    using ceiling_divide_int [of bs "re - rs + 1"] assms(1,2) by (simp add: tot)
  have c2: "fst (get_block bm 0) = rs" by (simp add: f)
  have c3: "snd (get_block bm (total_blocks bm - 1)) = re"
    using last_block_reaches_end [OF bpos, of "re - rs"] by (simp add: s tot)
  have inside: "rs + i * bs \<le> re" if "i < total_blocks bm" for i
    using index_times_size_le [OF bpos, of i "re - rs"] that by (simp add: tot)
  have full: "rs + i * bs + bs - 1 < re" if "i + 1 < total_blocks bm" for i
    using inside [OF that] by (simp add: algebra_simps)
  have c4: "\<forall>i. 0 \<le> i \<and> i < total_blocks bm \<longrightarrow>
              fst (get_block bm i) \<le> snd (get_block bm i)
            \<and> snd (get_block bm i) - fst (get_block bm i) + 1 \<le> bs"
    using inside bpos by (auto simp: f s)
  have c5: "\<forall>i. 0 \<le> i \<and> i + 1 < total_blocks bm \<longrightarrow>
              snd (get_block bm i) - fst (get_block bm i) + 1 = bs
            \<and> fst (get_block bm (i + 1)) = snd (get_block bm i) + 1"
    using full by (auto simp: f s algebra_simps)
  have c6: "\<forall>i j. 0 \<le> i \<and> i < j \<and> j < total_blocks bm \<longrightarrow>
              snd (get_block bm i) < fst (get_block bm j)"
  proof (intro allI impI)
    fix i j assume h: "0 \<le> i \<and> i < j \<and> j < total_blocks bm"
    then have "(i + 1) * bs \<le> j * bs" using bpos by (simp add: mult_right_mono)
    then have "rs + i * bs + bs - 1 < rs + j * bs" by (simp add: algebra_simps)
    then show "snd (get_block bm i) < fst (get_block bm j)" by (simp add: f s)
  qed
  have c7: "(\<Union>i\<in>{0..<total_blocks bm}. {fst (get_block bm i)..snd (get_block bm i)}) = {rs..re}"
  proof (intro set_eqI iffI)
    fix k assume "k \<in> (\<Union>i\<in>{0..<total_blocks bm}. {fst (get_block bm i)..snd (get_block bm i)})"
    then obtain i where i: "0 \<le> i" "i < total_blocks bm" "rs + i * bs \<le> k"
        "k \<le> min (rs + i * bs + bs - 1) re"
      by (auto simp: f s)
    have nn: "0 \<le> i * bs" using i(1) bpos by simp
    from i(3) nn have "rs \<le> k" by linarith
    moreover from i(4) have "k \<le> re" by simp
    ultimately show "k \<in> {rs..re}" by simp
  next
    fix k assume k: "k \<in> {rs..re}"
    define i where "i = (k - rs) div bs"
    have i0: "0 \<le> i" using k bpos by (simp add: i_def pos_imp_zdiv_nonneg_iff)
    have "i \<le> (re - rs) div bs" using k bpos by (simp add: i_def zdiv_mono1)
    then have it: "i < total_blocks bm" by (simp add: tot)
    have lo: "i * bs \<le> k - rs"
      using index_times_size_le [OF bpos, of i "k - rs"] by (simp add: i_def)
    have hi: "k - rs \<le> i * bs + bs - 1"
      using last_block_reaches_end [OF bpos, of "k - rs"] by (simp add: i_def)
    have "k \<in> {fst (get_block bm i)..snd (get_block bm i)}"
      using lo hi k by (simp add: f s)
    then show "k \<in> (\<Union>i\<in>{0..<total_blocks bm}. {fst (get_block bm i)..snd (get_block bm i)})"
      using i0 it by auto
  qed
  show ?thesis using c1 c2 c3 c4 c5 c6 c7 by blast
qed

theorem partition_covers_master_range_witness:
  "(0x400::int) \<le> 0x4FF \<and> (1::int) \<le> 0x40
   \<and> BlockManager_init 0x400 0x4FF (Some 0x40)
       = Inr \<lparr>range_start = 0x400, range_end = 0x4FF, block_size = 0x40, total_blocks = 4\<rparr>
   \<and> (\<Union>i\<in>{0..<4}. {fst (get_block \<lparr>range_start = 0x400, range_end = 0x4FF,
                                        block_size = 0x40, total_blocks = 4\<rparr> i)
                      ..snd (get_block \<lparr>range_start = 0x400, range_end = 0x4FF,
                                        block_size = 0x40, total_blocks = 4\<rparr> i)})
       = {0x400..0x4FF}"
proof -
  have h1: "(0x400::int) \<le> 0x4FF" by simp
  have h2: "(1::int) \<le> 0x40" by simp
  have h3: "BlockManager_init 0x400 0x4FF (Some 0x40)
       = Inr \<lparr>range_start = 0x400, range_end = 0x4FF, block_size = 0x40, total_blocks = 4\<rparr>"
    by (simp add: BlockManager_init_def)
  show ?thesis using h1 h2 h3 partition_covers_master_range [OF h1 h2 h3] by simp
qed

subsection \<open>Decoding pool identifiers\<close>

lemma upper_hex_facts:
  assumes "is_upper_hex c"
  shows "digit_value c < 16" "c \<noteq> CHR ''_''" "c \<noteq> CHR ''+''" "c \<noteq> CHR ''-''"
    "c \<noteq> CHR ''x''" "c \<noteq> CHR ''X''" "\<not> int_isspace c"
  using assms
  by (auto simp: is_upper_hex_def digit_value_def int_isspace_def code_point_def Let_def)

lemma scan_digits16_upper_hex:
  "list_all is_upper_hex s \<Longrightarrow> prev \<noteq> CHR ''_'' \<or> s \<noteq> [] \<Longrightarrow>
   scan_digits16 s prev acc n
     = Some ([], foldl (\<lambda>a c. a * 16 + int (digit_value c)) acc s, n + length s)"
proof (induction s arbitrary: prev acc n)
  case Nil
  then show ?case by simp
next
  case (Cons c cs)
  then have c: "is_upper_hex c" and cs: "list_all is_upper_hex cs" by simp_all
  have "scan_digits16 cs c (acc * 16 + int (digit_value c)) (Suc n)
        = Some ([], foldl (\<lambda>a c. a * 16 + int (digit_value c)) (acc * 16 + int (digit_value c)) cs,
                Suc n + length cs)"
    using Cons.IH [OF cs, of c] upper_hex_facts(2) [OF c] by simp
  then show ?case using upper_hex_facts(1,2) [OF c] by simp
qed

lemma py_int16_upper_hex:
  assumes "list_all is_upper_hex s" and "s \<noteq> []"
  shows "py_int16 s = Inr (hex_value s)"
proof -
  obtain c cs where s: "s = c # cs" using assms(2) by (cases s) auto
  have c: "is_upper_hex c" using assms(1) s by simp
  have d: "dropWhile int_isspace s = s" using upper_hex_facts(7) [OF c] s by simp
  have sg: "strip_sign s = (1, s)"
    using upper_hex_facts(3,4) [OF c] s by (simp add: strip_sign_def)
  have pf: "strip_prefix16 s = s"
  proof (cases cs)
    case Nil
    then show ?thesis using s by (simp add: strip_prefix16_def)
  next
    case (Cons c1 r)
    then have "is_upper_hex c1" using assms(1) s by simp
    then show ?thesis using s Cons upper_hex_facts(5,6) [of c1] by (simp add: strip_prefix16_def)
  qed
  have sc: "scan_digits16 s (CHR 0x00) 0 0 = Some ([], hex_value s, length s)"
    using scan_digits16_upper_hex [OF assms(1), of "CHR 0x00" 0 0] assms(2)
    by (simp add: hex_value_def)
  have hd: "hd s \<noteq> CHR ''_''" using upper_hex_facts(2) [OF c] s by simp
  show ?thesis
    unfolding py_int16_def d sg using hd assms(2) by (simp add: pf sc)
qed

lemma foldl_hex_shift:
  "foldl (\<lambda>acc c. acc * 16 + int (digit_value c)) x b
     = x * 16 ^ length b + foldl (\<lambda>acc c. acc * 16 + int (digit_value c)) 0 b"
proof (induction b rule: rev_induct)
  case Nil
  then show ?case by simp
next
  case (snoc c b)
  define f where "f = (\<lambda>acc c. acc * 16 + int (digit_value c))"
  have IH: "foldl f x b = x * 16 ^ length b + foldl f 0 b" using snoc.IH by (simp only: f_def)
  have "foldl f x (b @ [c]) = foldl f x b * 16 + int (digit_value c)" by (simp add: f_def)
  also have "\<dots> = (x * 16 ^ length b + foldl f 0 b) * 16 + int (digit_value c)"
    by (simp only: IH)
  also have "\<dots> = x * 16 ^ length (b @ [c]) + (foldl f 0 b * 16 + int (digit_value c))"
    by (simp add: algebra_simps)
  finally have "foldl f x (b @ [c]) = x * 16 ^ length (b @ [c]) + foldl f 0 (b @ [c])"
    by (simp add: f_def)
  then show ?case by (simp only: f_def)
qed

lemma hex_value_append:
  "hex_value (a @ b) = hex_value a * 16 ^ length b + hex_value b"
  unfolding hex_value_def foldl_append by (rule foldl_hex_shift)

lemma hex_value_tails:
  "hex_value ''3000000000'' = 0x3000000000" "hex_value ''3FFFFFFFFF'' = 0x3FFFFFFFFF"
  "hex_value ''0003000000000'' = 0x3000000000" "hex_value ''0003FFFFFFFFF'' = 0x3FFFFFFFFF"
  by (simp_all add: hex_value_def digit_value_def code_point_def)

lemma hex_alphabet_upper: "list_all is_upper_hex hex_alphabet"
  by (simp add: hex_alphabet_def is_upper_hex_def code_point_def)

lemma decode_range_loop_eq:
  assumes "list_all is_upper_hex p" "list_all is_upper_hex sfx" "list_all is_upper_hex xs"
  shows "decode_range_loop p sfx xs blocks
         = Inr (blocks @ map (\<lambda>x. (hex_value (p @ [x] @ sfx @ ''3000000000''),
                                     hex_value (p @ [x] @ sfx @ ''3FFFFFFFFF''))) xs)"
  using assms(3)
proof (induction xs arbitrary: blocks)
  case Nil
  then show ?case by simp
next
  case (Cons x xs)
  then have x: "is_upper_hex x" and xs: "list_all is_upper_hex xs" by simp_all
  have t: "list_all is_upper_hex ''3000000000''" "list_all is_upper_hex ''3FFFFFFFFF''"
    by (simp_all add: is_upper_hex_def code_point_def)
  have lo: "py_int16 (p @ [x] @ sfx @ ''3000000000'') = Inr (hex_value (p @ [x] @ sfx @ ''3000000000''))"
    by (rule py_int16_upper_hex) (use assms(1,2) x t in simp_all)
  have hi: "py_int16 (p @ [x] @ sfx @ ''3FFFFFFFFF'') = Inr (hex_value (p @ [x] @ sfx @ ''3FFFFFFFFF''))"
    by (rule py_int16_upper_hex) (use assms(1,2) x t in simp_all)
  show ?case
    using lo hi by (simp add: Cons.IH [OF xs])
qed

lemma decode_challenge_inner_eq:
  assumes "list_all is_upper_hex p" "is_upper_hex x1" "list_all is_upper_hex xs"
  shows "decode_challenge_inner p x1 xs blocks
         = Inr (blocks @ map (\<lambda>x2. (hex_value (p @ [x1] @ [x2] @ ''0003000000000''),
                                      hex_value (p @ [x1] @ [x2] @ ''0003FFFFFFFFF''))) xs)"
  using assms(3)
proof (induction xs arbitrary: blocks)
  case Nil
  then show ?case by simp
next
  case (Cons x xs)
  then have x: "is_upper_hex x" and xs: "list_all is_upper_hex xs" by simp_all
  have t: "list_all is_upper_hex ''0003000000000''" "list_all is_upper_hex ''0003FFFFFFFFF''"
    by (simp_all add: is_upper_hex_def code_point_def)
  have lo: "py_int16 (p @ [x1] @ [x] @ ''0003000000000'') = Inr (hex_value (p @ [x1] @ [x] @ ''0003000000000''))"
    by (rule py_int16_upper_hex) (use assms(1,2) x t in simp_all)
  have hi: "py_int16 (p @ [x1] @ [x] @ ''0003FFFFFFFFF'') = Inr (hex_value (p @ [x1] @ [x] @ ''0003FFFFFFFFF''))"
    by (rule py_int16_upper_hex) (use assms(1,2) x t in simp_all)
  show ?case
    using lo hi by (simp add: Cons.IH [OF xs])
qed

lemma decode_challenge_outer_eq:
  assumes "list_all is_upper_hex p" "list_all is_upper_hex xs"
  shows "decode_challenge_outer p xs blocks
         = Inr (blocks @ concat (map (\<lambda>x1. map (\<lambda>x2. (hex_value (p @ [x1] @ [x2] @ ''0003000000000''),
                                      hex_value (p @ [x1] @ [x2] @ ''0003FFFFFFFFF''))) hex_alphabet) xs))"
  using assms(2)
proof (induction xs arbitrary: blocks)
  case Nil
  then show ?case by simp
next
  case (Cons x xs)
  then have x: "is_upper_hex x" and xs: "list_all is_upper_hex xs" by simp_all
  show ?case
    by (simp add: decode_challenge_inner_eq [OF assms(1) x hex_alphabet_upper] Cons.IH [OF xs])
qed

lemma digit_value_inj_upper:
  assumes "is_upper_hex x" "is_upper_hex y" "digit_value x = digit_value y"
  shows "x = y"
proof -
  have "code_point x = code_point y"
    using assms by (auto simp: is_upper_hex_def digit_value_def Let_def split: if_splits)
  then show ?thesis by (simp add: code_point_def)
qed

lemma hex_value_insert:
  "hex_value (p @ [x] @ r) = hex_value p * 16 ^ Suc (length r) + int (digit_value x) * 16 ^ length r + hex_value r"
proof -
  have "hex_value (p @ [x] @ r) = hex_value (p @ [x]) * 16 ^ length r + hex_value r"
    using hex_value_append [of "p @ [x]" r] by simp
  moreover have "hex_value (p @ [x]) = hex_value p * 16 + int (digit_value x)"
    by (simp add: hex_value_def)
  ultimately show ?thesis by (simp add: algebra_simps)
qed

lemma hex_value_insert_inj:
  assumes "is_upper_hex x" "is_upper_hex y"
    and "hex_value (p @ [x] @ r) = hex_value (p @ [y] @ r)"
  shows "x = y"
proof -
  have "int (digit_value x) * 16 ^ length r = int (digit_value y) * 16 ^ length r"
    using assms(3) unfolding hex_value_insert by simp
  then have "digit_value x = digit_value y" by simp
  then show ?thesis using assms(1,2) by (rule digit_value_inj_upper [rotated 2])
qed

lemma distinct_hex_alphabet: "distinct hex_alphabet"
  by (simp add: hex_alphabet_def)

lemma is_range_id_parts:
  assumes "is_range_id rid"
  shows "list_all is_upper_hex (take 2 rid)" "list_all is_upper_hex (drop 3 rid)"
    "length (drop 3 rid) = 4 \<or> length (drop 3 rid) = 5" "length (take 2 rid) = 2"
  using assms by (auto simp: is_range_id_def)



lemma decode_range_id_eq:
  assumes r: "is_range_id range_id"
  shows "decode_range_id range_id
       = Inr (map (\<lambda>x. (hex_value (take 2 range_id @ [x] @ drop 3 range_id @ ''3000000000''),
                         hex_value (take 2 range_id @ [x] @ drop 3 range_id @ ''3FFFFFFFFF'')))
                  hex_alphabet)"
  using decode_range_loop_eq [OF is_range_id_parts(1,2) [OF r] hex_alphabet_upper, of "[]"]
  by (simp add: decode_range_id_def)

lemma range_blocks_distinct:
  "distinct (map (\<lambda>x. (hex_value (p @ [x] @ sfx @ t1), hex_value (p @ [x] @ sfx @ t2))) hex_alphabet)"
proof -
  have "inj_on (\<lambda>x. (hex_value (p @ [x] @ sfx @ t1), hex_value (p @ [x] @ sfx @ t2))) (set hex_alphabet)"
  proof (rule inj_onI)
    fix x y assume x: "x \<in> set hex_alphabet" and y: "y \<in> set hex_alphabet"
      and e: "(hex_value (p @ [x] @ sfx @ t1), hex_value (p @ [x] @ sfx @ t2))
            = (hex_value (p @ [y] @ sfx @ t1), hex_value (p @ [y] @ sfx @ t2))"
    have ux: "is_upper_hex x" and uy: "is_upper_hex y"
      using x y hex_alphabet_upper by (auto simp: list_all_iff)
    from e have "hex_value (p @ [x] @ (sfx @ t1)) = hex_value (p @ [y] @ (sfx @ t1))"
      by simp
    then show "x = y" by (rule hex_value_insert_inj [OF ux uy])
  qed
  then show ?thesis using distinct_hex_alphabet by (simp add: distinct_map)
qed


lemma decode_challenge_eq:
  assumes p: "list_all is_upper_hex challenge_prefix"
  shows "decode_challenge challenge_prefix
       = Inr (map (\<lambda>(x1, x2). (hex_value (challenge_prefix @ [x1] @ [x2] @ ''0003000000000''),
                                hex_value (challenge_prefix @ [x1] @ [x2] @ ''0003FFFFFFFFF'')))
                  (List.product hex_alphabet hex_alphabet))"
  using decode_challenge_outer_eq [OF p hex_alphabet_upper, of "[]"]
  by (simp add: decode_challenge_def product_concat_map map_concat comp_def)


lemma length_product_alphabet: "length (List.product hex_alphabet hex_alphabet) = 256"
  by (simp add: length_product) (simp add: hex_alphabet_def)

lemma distinct_product_alphabet: "distinct (List.product hex_alphabet hex_alphabet)"
  by (rule distinct_product [OF distinct_hex_alphabet distinct_hex_alphabet])


lemma hex_value_insert2:
  "hex_value (p @ [z1] @ [z2] @ t)
     = hex_value p * 16 ^ (length t + 2)
       + (int (digit_value z1) * 16 + int (digit_value z2)) * 16 ^ length t + hex_value t"
proof -
  have "hex_value (p @ [z1] @ [z2] @ t) = hex_value ((p @ [z1]) @ [z2] @ t)" by simp
  also have "\<dots> = hex_value (p @ [z1]) * 16 ^ Suc (length t) + int (digit_value z2) * 16 ^ length t + hex_value t"
    by (rule hex_value_insert)
  also have "hex_value (p @ [z1]) = hex_value p * 16 + int (digit_value z1)"
    by (simp add: hex_value_def)
  finally show ?thesis by (simp add: algebra_simps)
qed


lemma two_digits_inj:
  assumes "int a * 16 + int b = int c * 16 + int d" "b < 16" "d < 16"
  shows "a = c \<and> b = d"
proof -
  have e: "a * 16 + b = c * 16 + d" using assms(1) by linarith
  have "(a * 16 + b) mod 16 = b" using assms(2) by simp
  moreover have "(c * 16 + d) mod 16 = d" using assms(3) by simp
  ultimately have bd: "b = d" using e by simp
  then show ?thesis using e by simp
qed


lemma challenge_blocks_distinct:
  "distinct (map (\<lambda>(x1, x2). (hex_value (p @ [x1] @ [x2] @ t1), hex_value (p @ [x1] @ [x2] @ t2)))
               (List.product hex_alphabet hex_alphabet))"
proof -
  have "inj_on (\<lambda>(x1, x2). (hex_value (p @ [x1] @ [x2] @ t1), hex_value (p @ [x1] @ [x2] @ t2)))
          (set (List.product hex_alphabet hex_alphabet))"
  proof (rule inj_onI)
    fix a b assume a: "a \<in> set (List.product hex_alphabet hex_alphabet)"
      and b: "b \<in> set (List.product hex_alphabet hex_alphabet)"
      and e: "(case a of (x1, x2) \<Rightarrow> (hex_value (p @ [x1] @ [x2] @ t1), hex_value (p @ [x1] @ [x2] @ t2)))
            = (case b of (x1, x2) \<Rightarrow> (hex_value (p @ [x1] @ [x2] @ t1), hex_value (p @ [x1] @ [x2] @ t2)))"
    obtain x1 x2 where a': "a = (x1, x2)" by (cases a)
    obtain y1 y2 where b': "b = (y1, y2)" by (cases b)
    have u: "is_upper_hex x1" "is_upper_hex x2" "is_upper_hex y1" "is_upper_hex y2"
      using a b a' b' hex_alphabet_upper by (auto simp: list_all_iff)
    have e1: "hex_value (p @ [x1] @ [x2] @ t1) = hex_value (p @ [y1] @ [y2] @ t1)"
      using e unfolding a' b' by simp
    have "(int (digit_value x1) * 16 + int (digit_value x2)) * 16 ^ length t1
        = (int (digit_value y1) * 16 + int (digit_value y2)) * 16 ^ length t1"
      using e1 unfolding hex_value_insert2 by simp
    then have "int (digit_value x1) * 16 + int (digit_value x2)
             = int (digit_value y1) * 16 + int (digit_value y2)" by simp
    then have "digit_value x1 = digit_value y1 \<and> digit_value x2 = digit_value y2"
      by (rule two_digits_inj) (use u upper_hex_facts(1) in blast)+
    then show "a = b" using u a' b' digit_value_inj_upper by blast
  qed
  then show ?thesis using distinct_product_alphabet by (simp add: distinct_map)
qed

text \<open>
  C5. Decoding a compact range code (two upper-case hexadecimal digits, \<^verbatim>\<open>X\<close>, four or
  five more) returns exactly 16 blocks, pairwise different, the k-th being the one for the
  k-th digit of \<^verbatim>\<open>0123456789ABCDEF\<close> inserted between prefix and suffix. Decoding a
  challenge prefix (two upper-case hexadecimal digits) returns exactly 256 blocks,
  pairwise different, one for every pair of inserted digits, in the order of the two loops.
\<close>

theorem decoders_expand_to_16_and_256:
  "(is_range_id range_id \<longrightarrow>
      (\<exists>blocks. decode_range_id range_id = Inr blocks \<and> length blocks = 16 \<and> distinct blocks
         \<and> blocks = map (\<lambda>x. (hex_value (take 2 range_id @ [x] @ drop 3 range_id @ ''3000000000''),
                                  hex_value (take 2 range_id @ [x] @ drop 3 range_id @ ''3FFFFFFFFF'')))
                         hex_alphabet))
   \<and> (is_challenge_prefix challenge_prefix \<longrightarrow>
      (\<exists>blocks. decode_challenge challenge_prefix = Inr blocks \<and> length blocks = 256
         \<and> distinct blocks
         \<and> blocks = map (\<lambda>(x1, x2). (hex_value (challenge_prefix @ [x1] @ [x2] @ ''0003000000000''),
                                        hex_value (challenge_prefix @ [x1] @ [x2] @ ''0003FFFFFFFFF'')))
                         (List.product hex_alphabet hex_alphabet)))"
proof (intro conjI impI)
  assume r: "is_range_id range_id"
  have l: "length hex_alphabet = 16" by (simp add: hex_alphabet_def)
  show "\<exists>blocks. decode_range_id range_id = Inr blocks \<and> length blocks = 16 \<and> distinct blocks
         \<and> blocks = map (\<lambda>x. (hex_value (take 2 range_id @ [x] @ drop 3 range_id @ ''3000000000''),
                                  hex_value (take 2 range_id @ [x] @ drop 3 range_id @ ''3FFFFFFFFF'')))
                         hex_alphabet"
    using decode_range_id_eq [OF r] range_blocks_distinct l
    by (intro exI conjI) (assumption, simp_all only: length_map)
next
  assume c: "is_challenge_prefix challenge_prefix"
  then have p: "list_all is_upper_hex challenge_prefix" by (simp add: is_challenge_prefix_def)
  show "\<exists>blocks. decode_challenge challenge_prefix = Inr blocks \<and> length blocks = 256
         \<and> distinct blocks
         \<and> blocks = map (\<lambda>(x1, x2). (hex_value (challenge_prefix @ [x1] @ [x2] @ ''0003000000000''),
                                        hex_value (challenge_prefix @ [x1] @ [x2] @ ''0003FFFFFFFFF'')))
                         (List.product hex_alphabet hex_alphabet)"
    using decode_challenge_eq [OF p] challenge_blocks_distinct length_product_alphabet
    by (intro exI conjI) (assumption, simp_all only: length_map)
qed

theorem decoders_expand_to_16_and_256_witness:
  "is_range_id ''50XA1EC'' \<and> is_challenge_prefix ''7F''
   \<and> (\<exists>blocks. decode_range_id ''50XA1EC'' = Inr blocks \<and> length blocks = 16)
   \<and> (\<exists>blocks. decode_challenge ''7F'' = Inr blocks \<and> length blocks = 256)"
proof -
  have h1: "is_range_id ''50XA1EC''" by (simp add: is_range_id_def is_upper_hex_def code_point_def)
  have h2: "is_challenge_prefix ''7F''"
    by (simp add: is_challenge_prefix_def is_upper_hex_def code_point_def)
  have t: "(\<exists>blocks. decode_range_id ''50XA1EC'' = Inr blocks \<and> length blocks = 16)
         \<and> (\<exists>blocks. decode_challenge ''7F'' = Inr blocks \<and> length blocks = 256)"
    using h1 h2 decoders_expand_to_16_and_256 [of "''50XA1EC''" "''7F''"] by blast
  show ?thesis using h1 h2 t by (intro conjI) (assumption | rule conjunct1 [OF t] conjunct2 [OF t])+
qed

lemma range_block_size:
  "hex_value (p @ [x] @ sfx @ ''3000000000'') \<le> hex_value (p @ [x] @ sfx @ ''3FFFFFFFFF'')
   \<and> hex_value (p @ [x] @ sfx @ ''3FFFFFFFFF'') - hex_value (p @ [x] @ sfx @ ''3000000000'') + 1
       = 0x1000000000"
proof -
  have a: "hex_value (p @ [x] @ sfx @ t) = hex_value (p @ [x] @ sfx) * 16 ^ length t + hex_value t" for t
    using hex_value_append [of "p @ [x] @ sfx" t] by simp
  show ?thesis unfolding a hex_value_tails by simp
qed

lemma challenge_block_size:
  "hex_value (p @ [x1] @ [x2] @ ''0003000000000'') \<le> hex_value (p @ [x1] @ [x2] @ ''0003FFFFFFFFF'')
   \<and> hex_value (p @ [x1] @ [x2] @ ''0003FFFFFFFFF'') - hex_value (p @ [x1] @ [x2] @ ''0003000000000'') + 1
       = 0x1000000000"
proof -
  have a: "hex_value (p @ [x1] @ [x2] @ t) = hex_value (p @ [x1] @ [x2]) * 16 ^ length t + hex_value t" for t
    using hex_value_append [of "p @ [x1] @ [x2]" t] by simp
  show ?thesis unfolding a hex_value_tails by simp
qed

lemma coincide_geometry:
  assumes "e - s + 1 = n" "get_block bm i = (s, e)"
  shows "block_size bm = n \<or> (e = range_end bm \<and> n < block_size bm)"
  using assms by (auto simp: get_block_def Let_def min_def split: if_splits)

text \<open>
  C10. Every block that decoding a compact range code or a challenge prefix returns has
  \<open>start \<le> end\<close> and holds exactly \<^verbatim>\<open>0x1000000000\<close> = \<open>2 ^ 36\<close> keys, which is the block
  size that \<^verbatim>\<open>BlockManager\<close> takes when none is given. A block of that length can equal a
  block of a partition only if the partition's block size is \<open>2 ^ 36\<close> too, or if the
  partition's block size is larger and the block is the one cut short by the end of the
  master range.
\<close>

theorem decoded_blocks_have_default_size:
  "(is_range_id range_id \<longrightarrow>
      (\<exists>blocks. decode_range_id range_id = Inr blocks
         \<and> (\<forall>(s, e) \<in> set blocks. s \<le> e \<and> e - s + 1 = 0x1000000000)))
   \<and> (is_challenge_prefix challenge_prefix \<longrightarrow>
      (\<exists>blocks. decode_challenge challenge_prefix = Inr blocks
         \<and> (\<forall>(s, e) \<in> set blocks. s \<le> e \<and> e - s + 1 = 0x1000000000)))
   \<and> (0x1000000000 :: int) = 2 ^ 36
   \<and> (\<exists>bm. BlockManager_init rs re None = Inr bm \<and> block_size bm = 0x1000000000)
   \<and> (e - s + 1 = 0x1000000000 \<and> get_block bm' i = (s, e) \<longrightarrow>
        block_size bm' = 0x1000000000 \<or> (e = range_end bm' \<and> 0x1000000000 < block_size bm'))"
proof (intro conjI impI)
  assume r: "is_range_id range_id"
  show "\<exists>blocks. decode_range_id range_id = Inr blocks
         \<and> (\<forall>(s, e) \<in> set blocks. s \<le> e \<and> e - s + 1 = 0x1000000000)"
    unfolding decode_range_id_eq [OF r] using range_block_size by auto
next
  assume c: "is_challenge_prefix challenge_prefix"
  then have p: "list_all is_upper_hex challenge_prefix" by (simp add: is_challenge_prefix_def)
  show "\<exists>blocks. decode_challenge challenge_prefix = Inr blocks
         \<and> (\<forall>(s, e) \<in> set blocks. s \<le> e \<and> e - s + 1 = 0x1000000000)"
    unfolding decode_challenge_eq [OF p] using challenge_block_size by auto
next
  show "(0x1000000000 :: int) = 2 ^ 36" by simp
next
  show "\<exists>bm. BlockManager_init rs re None = Inr bm \<and> block_size bm = 0x1000000000"
    by (simp add: BlockManager_init_def default_block_size_def)
next
  assume "e - s + 1 = 0x1000000000 \<and> get_block bm' i = (s, e)"
  then show "block_size bm' = 0x1000000000 \<or> (e = range_end bm' \<and> 0x1000000000 < block_size bm')"
    using coincide_geometry [of e s "0x1000000000" bm' i] by blast
qed

theorem decoded_blocks_have_default_size_witness:
  "is_range_id ''41XA26C0'' \<and> is_challenge_prefix ''7F''
   \<and> (\<exists>blocks. decode_range_id ''41XA26C0'' = Inr blocks
         \<and> list_all (\<lambda>(s, e). s \<le> e \<and> e - s + 1 = 0x1000000000) blocks)
   \<and> (\<exists>blocks. decode_challenge ''7F'' = Inr blocks
         \<and> list_all (\<lambda>(s, e). s \<le> e \<and> e - s + 1 = 0x1000000000) blocks)
   \<and> get_block \<lparr>range_start = 0x400000000000000000, range_end = 0x7FFFFFFFFFFFFFFFFF,
                 block_size = 0x1000000000, total_blocks = 0x400000000\<rparr> 0x10A26C03
       = (0x410A26C03000000000, 0x410A26C03FFFFFFFFF)
   \<and> (0x410A26C03FFFFFFFFF :: int) - 0x410A26C03000000000 + 1 = 0x1000000000"
proof -
  have h1: "is_range_id ''41XA26C0''" by (simp add: is_range_id_def is_upper_hex_def code_point_def)
  have h2: "is_challenge_prefix ''7F''"
    by (simp add: is_challenge_prefix_def is_upper_hex_def code_point_def)
  have h3: "get_block \<lparr>range_start = 0x400000000000000000, range_end = 0x7FFFFFFFFFFFFFFFFF,
                 block_size = 0x1000000000, total_blocks = 0x400000000\<rparr> 0x10A26C03
       = (0x410A26C03000000000, 0x410A26C03FFFFFFFFF)"
    by (simp add: get_block_def)
  have h4: "(0x410A26C03FFFFFFFFF :: int) - 0x410A26C03000000000 + 1 = 0x1000000000" by simp
  note t = decoded_blocks_have_default_size [of "''41XA26C0''" "''7F''" 0 0
      "0x410A26C03FFFFFFFFF" "0x410A26C03000000000"
      "\<lparr>range_start = 0x400000000000000000, range_end = 0x7FFFFFFFFFFFFFFFFF,
        block_size = 0x1000000000, total_blocks = 0x400000000\<rparr>" "0x10A26C03"]
  have a: "\<exists>blocks. decode_range_id ''41XA26C0'' = Inr blocks
         \<and> list_all (\<lambda>(s, e). s \<le> e \<and> e - s + 1 = 0x1000000000) blocks"
    using t h1 unfolding list_all_iff by blast
  have b: "\<exists>blocks. decode_challenge ''7F'' = Inr blocks
         \<and> list_all (\<lambda>(s, e). s \<le> e \<and> e - s + 1 = 0x1000000000) blocks"
    using t h2 unfolding list_all_iff by blast
  show ?thesis using h1 h2 a b h3 h4 by blast
qed

text \<open>
  A partition of one block, with the block size \<^verbatim>\<open>0x1FFFFFFFFFF\<close> that the window offers,
  whose only block is the first block decoded from \<^verbatim>\<open>41XA26C0\<close>.
\<close>

theorem decoded_block_equals_truncated_block:
  "BlockManager_init 0x410A26C03000000000 0x410A26C03FFFFFFFFF (Some 0x1FFFFFFFFFF)
     = Inr \<lparr>range_start = 0x410A26C03000000000, range_end = 0x410A26C03FFFFFFFFF,
            block_size = 0x1FFFFFFFFFF, total_blocks = 1\<rparr>
   \<and> get_block \<lparr>range_start = 0x410A26C03000000000, range_end = 0x410A26C03FFFFFFFFF,
                 block_size = 0x1FFFFFFFFFF, total_blocks = 1\<rparr> 0
       = (0x410A26C03000000000, 0x410A26C03FFFFFFFFF)
   \<and> (\<exists>blocks. decode_range_id ''41XA26C0'' = Inr blocks
         \<and> hd blocks = (0x410A26C03000000000, 0x410A26C03FFFFFFFFF))
   \<and> (0x1FFFFFFFFFF :: int) \<noteq> 0x1000000000"
proof -
  have r: "is_range_id ''41XA26C0''" by (simp add: is_range_id_def is_upper_hex_def code_point_def)
  have a: "hex_value ''410A26C03000000000'' = 0x410A26C03000000000"
    by (simp add: hex_value_def digit_value_def code_point_def)
  have b: "hex_value ''410A26C03FFFFFFFFF'' = 0x410A26C03FFFFFFFFF"
    by (simp add: hex_value_def digit_value_def code_point_def)
  have d: "\<exists>blocks. decode_range_id ''41XA26C0'' = Inr blocks
         \<and> hd blocks = (0x410A26C03000000000, 0x410A26C03FFFFFFFFF)"
    unfolding decode_range_id_eq [OF r] by (simp add: hex_alphabet_def a b)
  show ?thesis using d by (simp add: BlockManager_init_def get_block_def)
qed

lemma hex_digits_of_small: "n < 16 \<Longrightarrow> hex_digits_of n = [hex_char n]"
  by (subst hex_digits_of.simps) simp

lemma hex_digits_of_large:
  "16 \<le> n \<Longrightarrow> hex_digits_of n = hex_digits_of (n div 16) @ [hex_char (n mod 16)]"
  by (subst hex_digits_of.simps) simp

lemmas hex_eval = hex_upper_def hex_lower_def py_hex_def py_upper_def upper_char_def
  hex_char_def hex_digits_of_small hex_digits_of_large

text \<open>
  C6. The range code \<^verbatim>\<open>50XA1EC\<close> (the example of the docstring of \<^verbatim>\<open>_decode_range_id\<close>,
  with a suffix of four digits) decodes to the 16 blocks formed by inserting one digit and
  appending the two tails; each boundary, written as the ledger stores it, has 17
  hexadecimal digits, not 18.
\<close>

theorem range_code_with_short_suffix_has_17_digits:
  "is_range_id ''50XA1EC''
   \<and> (case decode_range_id ''50XA1EC'' of
        Inl err \<Rightarrow> []
      | Inr blocks \<Rightarrow> map (\<lambda>(s, e). (hex_upper s, hex_upper e)) blocks)
     = [(''500A1EC3000000000'', ''500A1EC3FFFFFFFFF''), (''501A1EC3000000000'', ''501A1EC3FFFFFFFFF''),
        (''502A1EC3000000000'', ''502A1EC3FFFFFFFFF''), (''503A1EC3000000000'', ''503A1EC3FFFFFFFFF''),
        (''504A1EC3000000000'', ''504A1EC3FFFFFFFFF''), (''505A1EC3000000000'', ''505A1EC3FFFFFFFFF''),
        (''506A1EC3000000000'', ''506A1EC3FFFFFFFFF''), (''507A1EC3000000000'', ''507A1EC3FFFFFFFFF''),
        (''508A1EC3000000000'', ''508A1EC3FFFFFFFFF''), (''509A1EC3000000000'', ''509A1EC3FFFFFFFFF''),
        (''50AA1EC3000000000'', ''50AA1EC3FFFFFFFFF''), (''50BA1EC3000000000'', ''50BA1EC3FFFFFFFFF''),
        (''50CA1EC3000000000'', ''50CA1EC3FFFFFFFFF''), (''50DA1EC3000000000'', ''50DA1EC3FFFFFFFFF''),
        (''50EA1EC3000000000'', ''50EA1EC3FFFFFFFFF''), (''50FA1EC3000000000'', ''50FA1EC3FFFFFFFFF'')]
   \<and> (case decode_range_id ''50XA1EC'' of
        Inl err \<Rightarrow> []
      | Inr blocks \<Rightarrow> map (\<lambda>(s, e). (length (hex_upper s), length (hex_upper e))) blocks)
     = replicate 16 (17, 17)"
proof -
  have h: "is_range_id ''50XA1EC''" by (simp add: is_range_id_def is_upper_hex_def code_point_def)
  have d: "decode_range_id ''50XA1EC''
     = Inr [(0x500A1EC3000000000, 0x500A1EC3FFFFFFFFF), (0x501A1EC3000000000, 0x501A1EC3FFFFFFFFF),
            (0x502A1EC3000000000, 0x502A1EC3FFFFFFFFF), (0x503A1EC3000000000, 0x503A1EC3FFFFFFFFF),
            (0x504A1EC3000000000, 0x504A1EC3FFFFFFFFF), (0x505A1EC3000000000, 0x505A1EC3FFFFFFFFF),
            (0x506A1EC3000000000, 0x506A1EC3FFFFFFFFF), (0x507A1EC3000000000, 0x507A1EC3FFFFFFFFF),
            (0x508A1EC3000000000, 0x508A1EC3FFFFFFFFF), (0x509A1EC3000000000, 0x509A1EC3FFFFFFFFF),
            (0x50AA1EC3000000000, 0x50AA1EC3FFFFFFFFF), (0x50BA1EC3000000000, 0x50BA1EC3FFFFFFFFF),
            (0x50CA1EC3000000000, 0x50CA1EC3FFFFFFFFF), (0x50DA1EC3000000000, 0x50DA1EC3FFFFFFFFF),
            (0x50EA1EC3000000000, 0x50EA1EC3FFFFFFFFF), (0x50FA1EC3000000000, 0x50FA1EC3FFFFFFFFF)]"
    unfolding decode_range_id_eq [OF h]
    by (simp add: hex_alphabet_def hex_value_def digit_value_def code_point_def)
  have r: "map (\<lambda>(s, e). (hex_upper s, hex_upper e))
       [(0x500A1EC3000000000, 0x500A1EC3FFFFFFFFF), (0x501A1EC3000000000, 0x501A1EC3FFFFFFFFF),
            (0x502A1EC3000000000, 0x502A1EC3FFFFFFFFF), (0x503A1EC3000000000, 0x503A1EC3FFFFFFFFF),
            (0x504A1EC3000000000, 0x504A1EC3FFFFFFFFF), (0x505A1EC3000000000, 0x505A1EC3FFFFFFFFF),
            (0x506A1EC3000000000, 0x506A1EC3FFFFFFFFF), (0x507A1EC3000000000, 0x507A1EC3FFFFFFFFF),
            (0x508A1EC3000000000, 0x508A1EC3FFFFFFFFF), (0x509A1EC3000000000, 0x509A1EC3FFFFFFFFF),
            (0x50AA1EC3000000000, 0x50AA1EC3FFFFFFFFF), (0x50BA1EC3000000000, 0x50BA1EC3FFFFFFFFF),
            (0x50CA1EC3000000000, 0x50CA1EC3FFFFFFFFF), (0x50DA1EC3000000000, 0x50DA1EC3FFFFFFFFF),
            (0x50EA1EC3000000000, 0x50EA1EC3FFFFFFFFF), (0x50FA1EC3000000000, 0x50FA1EC3FFFFFFFFF)]
     = [(''500A1EC3000000000'', ''500A1EC3FFFFFFFFF''), (''501A1EC3000000000'', ''501A1EC3FFFFFFFFF''),
        (''502A1EC3000000000'', ''502A1EC3FFFFFFFFF''), (''503A1EC3000000000'', ''503A1EC3FFFFFFFFF''),
        (''504A1EC3000000000'', ''504A1EC3FFFFFFFFF''), (''505A1EC3000000000'', ''505A1EC3FFFFFFFFF''),
        (''506A1EC3000000000'', ''506A1EC3FFFFFFFFF''), (''507A1EC3000000000'', ''507A1EC3FFFFFFFFF''),
        (''508A1EC3000000000'', ''508A1EC3FFFFFFFFF''), (''509A1EC3000000000'', ''509A1EC3FFFFFFFFF''),
        (''50AA1EC3000000000'', ''50AA1EC3FFFFFFFFF''), (''50BA1EC3000000000'', ''50BA1EC3FFFFFFFFF''),
        (''50CA1EC3000000000'', ''50CA1EC3FFFFFFFFF''), (''50DA1EC3000000000'', ''50DA1EC3FFFFFFFFF''),
        (''50EA1EC3000000000'', ''50EA1EC3FFFFFFFFF''), (''50FA1EC3000000000'', ''50FA1EC3FFFFFFFFF'')]"
    by (simp add: hex_eval)
  have m: "map (\<lambda>(s, e). (length (hex_upper s), length (hex_upper e))) bs
         = map (\<lambda>(a, b). (length a, length b)) (map (\<lambda>(s, e). (hex_upper s, hex_upper e)) bs)"
    for bs :: "(int \<times> int) list"
    by (simp add: case_prod_beta)
  show ?thesis
    unfolding d sum.case m r using h by (simp add: numeral_eq_Suc)
qed

subsection \<open>The repeated-run predicate\<close>

lemma run_after_other_char:
  assumes "replicate k p @ c # cs = pre @ replicate m d @ post"
    and "c \<noteq> p" and "d \<noteq> CHR ''0''" and "k < m \<or> p = CHR ''0''" and "0 < m"
  shows "\<exists>pre'. c # cs = pre' @ replicate m d @ post"
  using assms(1,4)
proof (induction k arbitrary: pre)
  case 0
  then show ?case by auto
next
  case (Suc k)
  show ?case
  proof (cases pre)
    case Nil
    obtain m' where m: "m = Suc m'" using assms(5) by (cases m) auto
    from Suc.prems(1) Nil m have dp: "d = p" by simp
    with assms(3) Suc.prems(2) have km: "Suc k < m" by auto
    have a: "(replicate (Suc k) p @ c # cs) ! Suc k = c"
      by (metis length_replicate nth_append_length)
    have b: "(pre @ replicate m d @ post) ! Suc k = p"
      using km dp Nil by (simp add: nth_append)
    have "(replicate (Suc k) p @ c # cs) ! Suc k = (pre @ replicate m d @ post) ! Suc k"
      by (simp only: Suc.prems(1))
    then have "c = p" by (simp only: a b)
    then show ?thesis using assms(2) by simp
  next
    case (Cons x pre'')
    with Suc.prems(1) have "replicate k p @ c # cs = pre'' @ replicate m d @ post" by auto
    moreover have "k < m \<or> p = CHR ''0''" using Suc.prems(2) by auto
    ultimately show ?thesis by (rule Suc.IH)
  qed
qed

lemma has_repeated_loop_eq:
  assumes "2 \<le> m"
  shows "1 \<le> count \<Longrightarrow> count < m \<or> p = CHR ''0'' \<Longrightarrow>
         has_repeated_loop rest m count [p] = repeated_run m (replicate (nat count) p @ rest)"
proof (induction rest arbitrary: count p)
  case Nil
  have "\<not> repeated_run m (replicate (nat count) p)"
  proof
    assume "repeated_run m (replicate (nat count) p)"
    then obtain pre c post where c: "c \<noteq> CHR ''0''"
      and e: "replicate (nat count) p = pre @ replicate (nat m) c @ post"
      by (auto simp: repeated_run_def)
    have "c \<in> set (pre @ replicate (nat m) c @ post)" using assms by simp
    then have "c = p" unfolding e [symmetric] by (simp split: if_splits)
    moreover have "nat m \<le> nat count"
      using arg_cong [OF e, of length] by simp
    ultimately show False using c Nil.prems assms by auto
  qed
  then show ?case by simp
next
  case (Cons ch rest)
  show ?case
  proof (cases "ch = p")
    case True
    show ?thesis
    proof (cases "count + 1 \<ge> m \<and> ch \<noteq> CHR ''0''")
      case t: True
      have "count < m" using t True Cons.prems by auto
      then have mc: "nat m = Suc (nat count)" using t Cons.prems by linarith
      have "replicate (nat count) p @ ch # rest = [] @ replicate (nat m) p @ rest"
        unfolding mc using True by (simp add: replicate_append_same)
      then have "repeated_run m (replicate (nat count) p @ ch # rest)"
        unfolding repeated_run_def using t True by blast
      then show ?thesis using t True by simp
    next
      case f: False
      have "has_repeated_loop rest m (count + 1) [p]
            = repeated_run m (replicate (nat (count + 1)) p @ rest)"
        by (rule Cons.IH) (use f True Cons.prems in auto)
      moreover have "replicate (nat (count + 1)) p @ rest = replicate (nat count) p @ ch # rest"
        using Cons.prems True by (simp add: nat_add_distrib replicate_append_same)
      ultimately show ?thesis using f True by auto
    qed
  next
    case False
    have ih: "has_repeated_loop rest m 1 [ch] = repeated_run m (replicate (nat 1) ch @ rest)"
      by (rule Cons.IH) (use assms in auto)
    have "repeated_run m (replicate (nat count) p @ ch # rest) = repeated_run m (ch # rest)"
    proof
      assume "repeated_run m (replicate (nat count) p @ ch # rest)"
      then obtain pre c post where c: "c \<noteq> CHR ''0''"
        and e: "replicate (nat count) p @ ch # rest = pre @ replicate (nat m) c @ post"
        by (auto simp: repeated_run_def)
      have "\<exists>pre'. ch # rest = pre' @ replicate (nat m) c @ post"
        by (rule run_after_other_char [OF e False c]) (use Cons.prems assms in auto)
      then show "repeated_run m (ch # rest)" using c by (auto simp: repeated_run_def)
    next
      assume "repeated_run m (ch # rest)"
      then obtain pre c post where c: "c \<noteq> CHR ''0''"
        and e: "ch # rest = pre @ replicate (nat m) c @ post"
        by (auto simp: repeated_run_def)
      then have "replicate (nat count) p @ ch # rest
                 = (replicate (nat count) p @ pre) @ replicate (nat m) c @ post" by simp
      then show "repeated_run m (replicate (nat count) p @ ch # rest)"
        unfolding repeated_run_def using c by blast
    qed
    then show ?thesis using False ih by simp
  qed
qed

lemma has_repeated_chars_eq:
  assumes "2 \<le> N"
  shows "has_repeated_chars s N = repeated_run N s"
proof (cases s)
  case Nil
  have "\<not> repeated_run N []" using assms by (auto simp: repeated_run_def)
  then show ?thesis using Nil by (simp add: has_repeated_chars_def)
next
  case (Cons c cs)
  have "has_repeated_loop cs N 1 [c] = repeated_run N (replicate (nat 1) c @ cs)"
    by (rule has_repeated_loop_eq [OF assms]) (use assms in auto)
  then show ?thesis using Cons by (simp add: has_repeated_chars_def)
qed

text \<open>
  C9. For every string and every threshold \<open>N \<ge> 2\<close>, \<^verbatim>\<open>has_repeated_chars\<close> returns
  true exactly when the string contains a run of \<open>N\<close> or more identical consecutive
  characters other than \<^verbatim>\<open>0\<close>; runs of \<^verbatim>\<open>0\<close> never cause a flag. With threshold 3 it
  flags \<^verbatim>\<open>7111111\<close> and flags neither \<^verbatim>\<open>7000000\<close> nor \<^verbatim>\<open>7101010\<close>.
\<close>

theorem has_repeated_chars_is_repeated_run:
  "(2 \<le> N \<longrightarrow> has_repeated_chars s N = repeated_run N s)
   \<and> has_repeated_chars ''7111111'' 3
   \<and> \<not> has_repeated_chars ''7000000'' 3
   \<and> \<not> has_repeated_chars ''7101010'' 3"
  using has_repeated_chars_eq [of N s] by (simp add: has_repeated_chars_def)

theorem has_repeated_chars_is_repeated_run_witness:
  "(2::int) \<le> 3 \<and> has_repeated_chars ''7111111'' 3 \<and> repeated_run 3 ''7111111''
   \<and> \<not> has_repeated_chars ''7000000'' 3 \<and> \<not> repeated_run 3 ''7000000''"
proof -
  have h: "(2::int) \<le> 3" by simp
  have a: "has_repeated_chars ''7111111'' 3 = repeated_run 3 ''7111111''"
    using has_repeated_chars_is_repeated_run [of 3 "''7111111''"] h by blast
  have b: "has_repeated_chars ''7000000'' 3 = repeated_run 3 ''7000000''"
    using has_repeated_chars_is_repeated_run [of 3 "''7000000''"] h by blast
  have c: "has_repeated_chars ''7111111'' 3" "\<not> has_repeated_chars ''7000000'' 3"
    by (simp_all add: has_repeated_chars_def)
  show ?thesis using h a b c by blast
qed

text \<open>
  With threshold 1 the claim fails: \<^verbatim>\<open>7\<close> is a run of one character other than \<^verbatim>\<open>0\<close>,
  and the function, which compares only from the second character of a run on, returns
  false.
\<close>

theorem has_repeated_chars_threshold_1:
  "\<not> has_repeated_chars ''7'' 1 \<and> repeated_run 1 ''7''"
proof -
  have "''7'' = [] @ replicate (nat 1) CHR ''7'' @ []" by simp
  moreover have "CHR ''7'' \<noteq> CHR ''0''" by simp
  ultimately have "repeated_run 1 ''7''" unfolding repeated_run_def by blast
  then show ?thesis by (simp add: has_repeated_chars_def)
qed

subsection \<open>Beyond the last block\<close>

lemma beyond_last_block:
  assumes "0 < (b::int)" "d div b + 1 \<le> i"
  shows "d < i * b"
proof -
  have "d \<le> (d div b) * b + b - 1" using assms(1) by (rule last_block_reaches_end)
  also have "\<dots> < (d div b + 1) * b" by (simp add: algebra_simps)
  also have "\<dots> \<le> i * b" using assms by (simp add: mult_right_mono)
  finally show ?thesis .
qed

lemma find_next_block_loop_exhausted:
  "total_blocks bm \<le> current_block_index st \<Longrightarrow>
   find_next_block_loop bm st n = (Returned, st\<lparr>current_block := None, is_running := False\<rparr>)"
  by (subst find_next_block_loop.simps) simp

text \<open>
  C7. \<^verbatim>\<open>get_block\<close> has no bounds check and raises nothing. For a master range with
  \<open>rs \<le> re\<close>, a block size \<open>bs \<ge> 1\<close> and an index \<open>i \<ge> total_blocks\<close>, it returns the pair
  \<open>(rs + i * bs, re)\<close>, whose start lies above its end. The exhaustion of the blocks is
  found by the caller: \<^verbatim>\<open>find_next_block\<close>, entered with such an index, does not call
  \<^verbatim>\<open>get_block\<close>, sets \<^verbatim>\<open>current_block\<close> to \<^verbatim>\<open>None\<close> and \<^verbatim>\<open>is_running\<close> to false, and
  returns normally.
\<close>

theorem get_block_has_no_bounds_check:
  assumes "rs \<le> re" and "1 \<le> bs" and "BlockManager_init rs re (Some bs) = Inr bm"
    and "total_blocks bm \<le> i"
  shows "get_block bm i = (rs + i * bs, re)
       \<and> snd (get_block bm i) < fst (get_block bm i)
       \<and> (block_mgr st = Some bm \<and> current_block_index st = i \<longrightarrow>
            find_next_block st = (Returned, st\<lparr>current_block := None, is_running := False\<rparr>))"
proof -
  have bm: "bm = \<lparr>range_start = rs, range_end = re, block_size = bs,
                   total_blocks = (re - rs) div bs + 1\<rparr>"
    using assms(2,3) by (simp add: BlockManager_init_def)
  have "re - rs < i * bs"
    by (rule beyond_last_block) (use assms(2,4) bm in simp_all)
  then have g: "get_block bm i = (rs + i * bs, re)" using assms(2) by (simp add: get_block_def bm)
  moreover have "snd (get_block bm i) < fst (get_block bm i)"
    using \<open>re - rs < i * bs\<close> by (simp add: g)
  moreover have "block_mgr st = Some bm \<and> current_block_index st = i \<longrightarrow>
            find_next_block st = (Returned, st\<lparr>current_block := None, is_running := False\<rparr>)"
    using assms(4) by (auto simp: find_next_block_def find_next_block_loop_exhausted)
  ultimately show ?thesis by blast
qed

theorem get_block_has_no_bounds_check_witness:
  "(0x400::int) \<le> 0x4FF \<and> (1::int) \<le> 0x40
   \<and> BlockManager_init 0x400 0x4FF (Some 0x40)
       = Inr \<lparr>range_start = 0x400, range_end = 0x4FF, block_size = 0x40, total_blocks = 4\<rparr>
   \<and> get_block \<lparr>range_start = 0x400, range_end = 0x4FF, block_size = 0x40, total_blocks = 4\<rparr> 4
       = (0x400 + 4 * 0x40, 0x4FF)"
proof -
  have h1: "(0x400::int) \<le> 0x4FF" by simp
  have h2: "(1::int) \<le> 0x40" by simp
  have h3: "BlockManager_init 0x400 0x4FF (Some 0x40)
       = Inr \<lparr>range_start = 0x400, range_end = 0x4FF, block_size = 0x40, total_blocks = 4\<rparr>"
    by (simp add: BlockManager_init_def)
  have h4: "total_blocks \<lparr>range_start = 0x400, range_end = 0x4FF, block_size = 0x40, total_blocks = 4\<rparr> \<le> (4::int)"
    by simp
  show ?thesis
    using h1 h2 h3 get_block_has_no_bounds_check [OF h1 h2 h3 h4] by blast
qed

text \<open>
  The partition of \<^verbatim>\<open>0x400..0x4FF\<close> in blocks of \<^verbatim>\<open>0x40\<close> has 4 blocks; \<^verbatim>\<open>get_block(4)\<close>
  returns a pair and does not fail.
\<close>

theorem get_block_beyond_partition_returns_pair:
  "total_blocks \<lparr>range_start = 0x400, range_end = 0x4FF, block_size = 0x40, total_blocks = 4\<rparr> = 4
   \<and> get_block \<lparr>range_start = 0x400, range_end = 0x4FF, block_size = 0x40, total_blocks = 4\<rparr> 4
       = (0x500, 0x4FF)
   \<and> BlockManager_init 0x400 0x4FF (Some 0x40)
       = Inr \<lparr>range_start = 0x400, range_end = 0x4FF, block_size = 0x40, total_blocks = 4\<rparr>"
  by (simp add: get_block_def BlockManager_init_def)

subsection \<open>The block search\<close>

lemma format_int_small: "\<bar>n\<bar> < 2 ^ 64 \<Longrightarrow> \<not> format_int_raises n"
proof -
  assume a: "\<bar>n\<bar> < 2 ^ 64"
  have "(2::int) ^ 64 \<le> 10 ^ 64" by (rule power_mono) simp_all
  also have "(10::int) ^ 64 \<le> 10 ^ max_str_digits"
    by (rule power_increasing) (simp_all add: max_str_digits_def)
  finally have "(2::int) ^ 64 \<le> 10 ^ max_str_digits" .
  with a have "\<bar>n\<bar> < 10 ^ max_str_digits" by (rule order.strict_trans2)
  then show ?thesis unfolding format_int_raises_def by (simp only: not_le)
qed

lemma true_divide_small: "b \<noteq> 0 \<Longrightarrow> \<bar>a\<bar> < 2 ^ 64 \<Longrightarrow> true_divide_raises a b = None"
proof -
  assume b: "b \<noteq> 0" and a: "\<bar>a\<bar> < 2 ^ 64"
  define M :: int where "M = 2 ^ 1024 - 2 ^ 970"
  have "(2::int) ^ 970 * 2 \<le> 2 ^ 970 * 2 ^ 54" by (rule mult_left_mono) simp_all
  moreover have "(2::int) ^ 970 * 2 ^ 54 = 2 ^ (970 + 54)" by (rule power_add [symmetric])
  moreover have "(970::nat) + 54 = 1024" by simp
  ultimately have "(2::int) ^ 970 * 2 \<le> 2 ^ 1024" by (simp only:)
  moreover have "(2::int) ^ 64 \<le> 2 ^ 970" by (rule power_increasing) simp_all
  ultimately have c: "(2::int) ^ 64 \<le> M" unfolding M_def by linarith
  have "1 \<le> \<bar>b\<bar>" using b by simp
  then have "M * 1 \<le> M * \<bar>b\<bar>" using c by (intro mult_left_mono) simp_all
  then have "\<bar>a\<bar> < M * \<bar>b\<bar>" using a c by linarith
  then have "\<not> M * \<bar>b\<bar> \<le> \<bar>a\<bar>" by (simp only: not_le)
  then show ?thesis using b unfolding true_divide_raises_def M_def [symmetric] by (simp only: if_False)
qed

lemmas int16_eval = py_int16_def strip_sign_def strip_prefix16_def int_isspace_def digit_value_def
  code_point_def

lemma no_pattern_filter: "should_skip_block_by_pattern False False False s e = (False, None)"
  by (simp add: should_skip_block_by_pattern_def)

lemma stripped_lines_Cons:
  "stripped_lines (raw # rest)
     = (if py_strip raw = [] then stripped_lines rest else py_strip raw # stripped_lines rest)"
  by (simp add: stripped_lines_def)

lemma find_next_block_loop_found:
  "current_block_index st < total_blocks bm \<Longrightarrow>
   \<not> fst (is_block_scanned (scan_db st) (fst (get_block bm (current_block_index st)))
                              (snd (get_block bm (current_block_index st)))) \<Longrightarrow>
   \<not> fst (should_skip_block_by_pattern (exclude_iter3 st) (exclude_iter4 st) (exclude_alphanum st)
            (fst (get_block bm (current_block_index st))) (snd (get_block bm (current_block_index st)))) \<Longrightarrow>
   find_next_block_loop bm st n
     = (if format_int_raises (current_block_index st)
        then (Raised ValueError,
              st\<lparr>current_block := Some (get_block bm (current_block_index st)), keys_checked := 0\<rparr>)
        else (Returned,
              st\<lparr>current_block := Some (get_block bm (current_block_index st)), keys_checked := 0,
                 effects := effects st @ [Thread_run_block_search]\<rparr>))"
  by (subst find_next_block_loop.simps) (simp add: Let_def)

lemma find_next_block_loop_skip:
  "current_block_index st < total_blocks bm \<Longrightarrow>
   fst (is_block_scanned (scan_db st) (fst (get_block bm (current_block_index st)))
                            (snd (get_block bm (current_block_index st))))
   \<or> fst (should_skip_block_by_pattern (exclude_iter3 st) (exclude_iter4 st) (exclude_alphanum st)
            (fst (get_block bm (current_block_index st))) (snd (get_block bm (current_block_index st)))) \<Longrightarrow>
   find_next_block_loop bm st n
     = (if n + 1 \<ge> 100
        then (Returned,
              st\<lparr>current_block_index := current_block_index st + 1,
                 effects := effects st @ [Timeout_add_find_next_block]\<rparr>)
        else find_next_block_loop bm (st\<lparr>current_block_index := current_block_index st + 1\<rparr>) (n + 1))"
  by (subst find_next_block_loop.simps) (simp add: Let_def)

lemma time_sleep_raises: "time_sleep = Some NameError"
  by (simp add: time_sleep_def module_names_def)

lemma effects_assign: "effects (assign st w) = effects st"
  by (cases w) simp_all

lemma effects_assignments: "effects (foldl assign st ws) = effects st"
  by (induction ws arbitrary: st) (simp_all add: effects_assign)

lemma update_progress_effects:
  "update_progress st = Inr st' \<Longrightarrow> \<exists>k. effects st' = effects st @ replicate k Terminate"
  "update_progress st = Inl (e, st') \<Longrightarrow> effects st' = effects st"
proof -
  assume "update_progress st = Inr st'"
  then have "effects st' = effects st @ replicate 0 Terminate
           \<or> effects st' = effects st @ replicate 1 Terminate"
    by (auto simp: update_progress_def Let_def terminate_process_def
             split: if_splits option.splits)
  then show "\<exists>k. effects st' = effects st @ replicate k Terminate" by blast
next
  assume "update_progress st = Inl (e, st')"
  then show "effects st' = effects st"
    by (auto simp: update_progress_def Let_def split: if_splits option.splits)
qed

lemma process_line_effects:
  "process_line st line err = Inr (st', err') \<Longrightarrow>
     (\<exists>k. effects st' = effects st @ replicate k Terminate) \<and> err' = (err \<or> is_error_line line)"
  "process_line st line err = Inl (e, st') \<Longrightarrow> effects st' = effects st"
proof -
  assume a: "process_line st line err = Inr (st', err')"
  show "(\<exists>k. effects st' = effects st @ replicate k Terminate) \<and> err' = (err \<or> is_error_line line)"
  proof (cases "is_error_line line")
    case True
    then have "st' = st \<and> err'" using a by (simp add: process_line_def)
    then show ?thesis using True by (auto intro: exI [of _ 0])
  next
    case ne: False
    show ?thesis
    proof (cases "is_match_line line")
      case True
      then have "effects st' = effects st @ replicate 0 Terminate
               \<or> effects st' = effects st @ replicate 1 Terminate" and "err' = err"
        using a ne by (auto simp: process_line_def Let_def terminate_process_def split: if_splits)
      then show ?thesis using ne by blast
    next
      case nm: False
      show ?thesis
      proof (cases "keys_search line")
        case None
        then have "st' = st \<and> err' = err"
          using a ne nm by (auto simp: process_line_def split: if_splits)
        then show ?thesis using ne by (auto intro: exI [of _ 0])
      next
        case (Some g)
        then obtain k where k: "update_progress (st\<lparr>session_keys := k\<rparr>) = Inr st'" and "err' = err"
          using a ne nm by (auto simp: process_line_def split: if_splits sum.splits)
        from update_progress_effects(1) [OF k] show ?thesis using \<open>err' = err\<close> ne by simp
      qed
    qed
  qed
next
  assume a: "process_line st line err = Inl (e, st')"
  show "effects st' = effects st"
  proof (cases "keys_search line")
    case None
    then show ?thesis using a
      by (auto simp: process_line_def Let_def split: if_splits)
  next
    case (Some g)
    then have "effects st' = effects st
       \<or> (\<exists>k. update_progress (st\<lparr>session_keys := k\<rparr>) = Inl (e, st'))"
      using a by (auto simp: process_line_def Let_def split: if_splits sum.splits)
    then show ?thesis using update_progress_effects(2) by fastforce
  qed
qed

lemma printed_lines_stripped_Line:
  "stripped_lines (printed_lines (Line raw # rest))
     = (if py_strip raw = [] then stripped_lines (printed_lines rest)
        else py_strip raw # stripped_lines (printed_lines rest))"
  by (simp add: stripped_lines_Cons)

lemma read_loop_raised:
  "read_loop es st err n = Inl (e, st') \<Longrightarrow> \<exists>j. effects st' = effects st @ replicate j Terminate"
proof (induction es arbitrary: st err n)
  case Nil
  then show ?case by simp
next
  case (Cons ev rest)
  show ?case
  proof (cases ev)
    case (Other_thread w)
    then have "read_loop rest (assign st w) err n = Inl (e, st')" using Cons.prems by simp
    from Cons.IH [OF this] show ?thesis by (simp add: effects_assign)
  next
    case (Line raw)
    show ?thesis
    proof (cases "raw = [] \<or> \<not> is_running st \<or> is_paused st")
      case True
      then show ?thesis using Cons.prems Line by (auto split: if_splits)
    next
      case False
      show ?thesis
      proof (cases "py_strip raw = []")
        case True
        then have "read_loop rest st err n = Inl (e, st')"
          using Cons.prems False Line by (auto simp: Let_def)
        from Cons.IH [OF this] show ?thesis .
      next
        case ne: False
        show ?thesis
        proof (cases "process_line st (py_strip raw) err")
          case (Inl x)
          then have "x = (e, st')" using Cons.prems False ne Line by (simp add: Let_def)
          then have "effects st' = effects st" using Inl process_line_effects(2) by blast
          then show ?thesis by (auto intro: exI [of _ 0])
        next
          case (Inr y)
          obtain st1 err1 where y: "y = (st1, err1)" by (cases y)
          have "read_loop rest st1 err1 (n + 1) = Inl (e, st')"
            using Cons.prems False ne Inr y Line by (simp add: Let_def)
          from Cons.IH [OF this] obtain j where j: "effects st' = effects st1 @ replicate j Terminate"
            by blast
          from process_line_effects(1) [of st "py_strip raw" err st1 err1] Inr y
          obtain k where "effects st1 = effects st @ replicate k Terminate" by auto
          then have "effects st' = effects st @ replicate (k + j) Terminate"
            using j by (simp add: replicate_add)
          then show ?thesis by blast
        qed
      qed
    qed
  qed
qed

lemma read_loop_returned:
  "read_loop es st err n = Inr (st', err', n') \<Longrightarrow>
     (\<exists>j. effects st' = effects st @ replicate j Terminate)
     \<and> (\<exists>k. n' = n + int k \<and> k \<le> length (stripped_lines (printed_lines es))
            \<and> err' = (err \<or> (\<exists>line \<in> set (take k (stripped_lines (printed_lines es))).
                                is_error_line line)))"
proof (induction es arbitrary: st err n)
  case Nil
  then show ?case by (auto intro: exI [of _ 0])
next
  case (Cons ev rest)
  show ?case
  proof (cases ev)
    case (Other_thread w)
    then have "read_loop rest (assign st w) err n = Inr (st', err', n')" using Cons.prems by simp
    from Cons.IH [OF this] show ?thesis using Other_thread by (simp add: effects_assign)
  next
    case (Line raw)
    show ?thesis
    proof (cases "raw = [] \<or> \<not> is_running st \<or> is_paused st")
      case True
      then have "st' = st \<and> err' = err \<and> n' = n" using Cons.prems Line by (auto split: if_splits)
      then show ?thesis by (auto intro: exI [of _ 0])
    next
      case False
      show ?thesis
      proof (cases "py_strip raw = []")
        case True
        then have "read_loop rest st err n = Inr (st', err', n')"
          using Cons.prems False Line by (auto simp: Let_def)
        from Cons.IH [OF this] show ?thesis
          using True Line by (simp add: stripped_lines_Cons)
      next
        case ne: False
        show ?thesis
        proof (cases "process_line st (py_strip raw) err")
          case (Inl x)
          then show ?thesis using Cons.prems False ne Line by (simp add: Let_def)
        next
          case (Inr y)
          obtain st1 err1 where y: "y = (st1, err1)" by (cases y)
          have r: "read_loop rest st1 err1 (n + 1) = Inr (st', err', n')"
            using Cons.prems False ne Inr y Line by (simp add: Let_def)
          from process_line_effects(1) [of st "py_strip raw" err st1 err1] Inr y
          obtain i where i: "effects st1 = effects st @ replicate i Terminate"
            and e1: "err1 = (err \<or> is_error_line (py_strip raw))" by auto
          from Cons.IH [OF r] obtain j k where
            j: "effects st' = effects st1 @ replicate j Terminate" and
            k: "n' = n + 1 + int k" "k \<le> length (stripped_lines (printed_lines rest))"
               "err' = (err1 \<or> (\<exists>line \<in> set (take k (stripped_lines (printed_lines rest))).
                                    is_error_line line))"
            by blast
          have "effects st' = effects st @ replicate (i + j) Terminate"
            using i j by (simp add: replicate_add)
          moreover have "n' = n + int (Suc k)" using k(1) by simp
          moreover have "Suc k \<le> length (stripped_lines (printed_lines (ev # rest)))"
            using k(2) ne Line by (simp add: stripped_lines_Cons)
          moreover have "err' = (err \<or> (\<exists>line \<in> set (take (Suc k)
                            (stripped_lines (printed_lines (ev # rest)))). is_error_line line))"
            using k(3) e1 ne Line by (auto simp: stripped_lines_Cons)
          ultimately show ?thesis by blast
        qed
      qed
    qed
  qed
qed

lemma finish_block_search_result:
  "finish_block_search st err n ec = Inr st' \<Longrightarrow>
     (\<not> is_paused st \<and> \<not> err \<and> (ec = 0 \<or> ec = - 15) \<and> 10 \<le> n
        \<and> st' = st\<lparr>effects := effects st @ [Idle_add_on_block_completed]\<rparr>)
     \<or> (\<not> (\<not> is_paused st \<and> \<not> err \<and> (ec = 0 \<or> ec = - 15) \<and> 10 \<le> n)
        \<and> (\<exists>r. st' = st\<lparr>retry_count := r, is_running := False\<rparr>))"
  "finish_block_search st err n ec = Inl (e, st') \<Longrightarrow>
     \<not> (\<not> is_paused st \<and> \<not> err \<and> (ec = 0 \<or> ec = - 15) \<and> 10 \<le> n)
     \<and> ec = - 1 \<and> n = 0 \<and> e = NameError \<and> (\<exists>r. st' = st\<lparr>retry_count := r\<rparr>)"
  by (auto simp: finish_block_search_def Let_def time_sleep_raises split: if_splits)

lemma finish_block_search_passes:
  "\<not> is_paused st \<Longrightarrow> \<not> err \<Longrightarrow> ec = 0 \<or> ec = - 15 \<Longrightarrow> 10 \<le> n \<Longrightarrow>
   finish_block_search st err n ec = Inr (st\<lparr>effects := effects st @ [Idle_add_on_block_completed]\<rparr>)"
  by (auto simp: finish_block_search_def)

lemma read_until_exit_ended:
  "read_until_exit st w = Inl (out, st') \<Longrightarrow> \<exists>j. effects st' = effects st @ replicate j Terminate"
proof (cases "current_block st")
  case None
  assume "read_until_exit st w = Inl (out, st')"
  then have "st' = st" using None by (simp add: read_until_exit_def)
  then show ?thesis by (auto intro: exI [of _ 0])
next
  case (Some b)
  assume a: "read_until_exit st w = Inl (out, st')"
  obtain bs be where b: "b = (bs, be)" by (cases b)
  define st0 where "st0 = st\<lparr>session_keys := 0\<rparr>"
  show ?thesis
  proof (cases "build_keyhunt_command st0 bs be")
    case (Inl e)
    then have "st' = st0" using a Some b by (simp add: read_until_exit_def st0_def Let_def)
    then show ?thesis by (auto simp: st0_def intro: exI [of _ 0])
  next
    case (Inr cmd)
    show ?thesis
    proof (cases "popen_raises w")
      case True
      then have "st' = st0\<lparr>is_running := False\<rparr>"
        using a Some b Inr by (simp add: read_until_exit_def st0_def Let_def)
      then show ?thesis by (auto simp: st0_def intro: exI [of _ 0])
    next
      case False
      show ?thesis
      proof (cases "read_loop (events w) (st0\<lparr>process := Some (Popen cmd)\<rparr>) False 0")
        case (Inl x)
        obtain e st1 where x: "x = (e, st1)" by (cases x)
        have "st' = st1\<lparr>is_running := False\<rparr>"
          using a Some b Inr False Inl x by (simp add: read_until_exit_def st0_def Let_def)
        moreover have rl: "read_loop (events w) (st0\<lparr>process := Some (Popen cmd)\<rparr>) False 0 = Inl (e, st1)"
          using Inl x by simp
        from read_loop_raised [OF rl]
        obtain j where "effects st1 = effects (st0\<lparr>process := Some (Popen cmd)\<rparr>) @ replicate j Terminate"
          by blast
        ultimately show ?thesis by (auto simp: st0_def)
      next
        case (Inr y)
        then show ?thesis
          using a Some b \<open>build_keyhunt_command st0 bs be = Inr cmd\<close> False
          by (auto simp: read_until_exit_def st0_def Let_def split: prod.splits)
      qed
    qed
  qed
qed

lemma read_until_exit_test:
  "read_until_exit st w = Inr (st3, err, n, ec) \<Longrightarrow>
     (\<exists>j. effects st3 = effects st @ replicate j Terminate)
     \<and> (\<exists>k. n = int k \<and> k \<le> length (stripped_lines (printed_lines (events w)))
            \<and> err = (\<exists>line \<in> set (take k (stripped_lines (printed_lines (events w)))).
                        is_error_line line))
     \<and> (ec = - 1 \<or> wait_result w = Some ec)"
proof (cases "current_block st")
  case None
  assume "read_until_exit st w = Inr (st3, err, n, ec)"
  then show ?thesis using None by (simp add: read_until_exit_def)
next
  case (Some b)
  assume a: "read_until_exit st w = Inr (st3, err, n, ec)"
  obtain bs be where b: "b = (bs, be)" by (cases b)
  define st0 where "st0 = st\<lparr>session_keys := 0\<rparr>"
  from a Some b obtain cmd where cmd: "build_keyhunt_command st0 bs be = Inr cmd"
    by (auto simp: read_until_exit_def st0_def Let_def split: sum.splits)
  have np: "\<not> popen_raises w"
    using a Some b cmd by (auto simp: read_until_exit_def st0_def Let_def split: if_splits)
  from a Some b cmd np obtain st1 where
    r: "read_loop (events w) (st0\<lparr>process := Some (Popen cmd)\<rparr>) False 0 = Inr (st1, err, n)"
    and s3: "st3 = foldl assign (foldl assign st1 (before_wait w)) (before_test w)"
    and ec: "ec = (if process (foldl assign st1 (before_wait w)) \<noteq> None
                   then (case wait_result w of Some rc \<Rightarrow> rc | None \<Rightarrow> - 1) else - 1)"
    by (auto simp: read_until_exit_def st0_def Let_def split: sum.splits prod.splits)
  from read_loop_returned [OF r] obtain j k where
    j: "effects st1 = effects (st0\<lparr>process := Some (Popen cmd)\<rparr>) @ replicate j Terminate" and
    k: "n = 0 + int k" "k \<le> length (stripped_lines (printed_lines (events w)))"
       "err = (False \<or> (\<exists>line \<in> set (take k (stripped_lines (printed_lines (events w)))).
                          is_error_line line))"
    by blast
  have "effects st3 = effects st @ replicate j Terminate"
    using j s3 by (simp add: effects_assignments st0_def)
  moreover have "ec = - 1 \<or> wait_result w = Some ec"
    using ec by (auto split: if_splits option.splits)
  ultimately show ?thesis using k by auto
qed

lemma new_effects_append: "effects st' = effects st @ es \<Longrightarrow> new_effects st st' = es"
  by (simp add: new_effects_def)

lemma run_block_search_new_effects:
  "\<exists>j. (new_effects st (snd (run_block_search st w)) = replicate j Terminate
          \<and> \<not> (\<exists>st3 err n ec. read_until_exit st w = Inr (st3, err, n, ec)
                  \<and> \<not> is_paused st3 \<and> \<not> err \<and> (ec = 0 \<or> ec = - 15) \<and> 10 \<le> n))
      \<or> (new_effects st (snd (run_block_search st w))
             = replicate j Terminate @ [Idle_add_on_block_completed]
          \<and> (\<exists>st3 err n ec. read_until_exit st w = Inr (st3, err, n, ec)
                  \<and> \<not> is_paused st3 \<and> \<not> err \<and> (ec = 0 \<or> ec = - 15) \<and> 10 \<le> n))"
proof (cases "read_until_exit st w")
  case (Inl x)
  obtain out st' where x: "x = (out, st')" by (cases x)
  from read_until_exit_ended [of st w out st'] Inl x
  obtain j where "effects st' = effects st @ replicate j Terminate" by auto
  moreover have "snd (run_block_search st w) = st'" using Inl x by (simp add: run_block_search_def)
  ultimately have "new_effects st (snd (run_block_search st w)) = replicate j Terminate"
    by (simp add: new_effects_append)
  then show ?thesis using Inl by auto
next
  case (Inr y)
  obtain st3 err n ec where y: "y = (st3, err, n, ec)" by (cases y)
  have r: "read_until_exit st w = Inr (st3, err, n, ec)" using Inr y by simp
  from read_until_exit_test [OF r]
  obtain j where j: "effects st3 = effects st @ replicate j Terminate" by blast
  show ?thesis
  proof (cases "finish_block_search st3 err n ec")
    case (Inl z)
    obtain e st4 where z: "z = (e, st4)" by (cases z)
    from finish_block_search_result(2) [of st3 err n ec e st4] Inl z
    obtain rc where f: "\<not> (\<not> is_paused st3 \<and> \<not> err \<and> (ec = 0 \<or> ec = - 15) \<and> 10 \<le> n)"
      and s4: "st4 = st3\<lparr>retry_count := rc\<rparr>" by auto
    have "snd (run_block_search st w) = st4\<lparr>is_running := False\<rparr>"
      using r Inl z by (simp add: run_block_search_def)
    then have "new_effects st (snd (run_block_search st w)) = replicate j Terminate"
      using s4 j by (simp add: new_effects_append)
    then show ?thesis using f r by auto
  next
    case (Inr st4)
    have s: "snd (run_block_search st w) = st4" using r Inr by (simp add: run_block_search_def)
    from finish_block_search_result(1) [OF Inr]
    show ?thesis
    proof
      assume a: "\<not> is_paused st3 \<and> \<not> err \<and> (ec = 0 \<or> ec = - 15) \<and> 10 \<le> n
        \<and> st4 = st3\<lparr>effects := effects st3 @ [Idle_add_on_block_completed]\<rparr>"
      then have "new_effects st (snd (run_block_search st w))
                 = replicate j Terminate @ [Idle_add_on_block_completed]"
        using s j by (simp add: new_effects_append)
      then show ?thesis using a r by blast
    next
      assume a: "\<not> (\<not> is_paused st3 \<and> \<not> err \<and> (ec = 0 \<or> ec = - 15) \<and> 10 \<le> n)
        \<and> (\<exists>r. st4 = st3\<lparr>retry_count := r, is_running := False\<rparr>)"
      then have "new_effects st (snd (run_block_search st w)) = replicate j Terminate"
        using s j by (auto simp: new_effects_append)
      then show ?thesis using a r by auto
    qed
  qed
qed

lemma run_block_search_appends:
  "effects (snd (run_block_search st w)) = effects st @ new_effects st (snd (run_block_search st w))"
proof -
  have "\<exists>es. effects (snd (run_block_search st w)) = effects st @ es"
  proof (cases "read_until_exit st w")
    case (Inl x)
    obtain out st' where x: "x = (out, st')" by (cases x)
    from read_until_exit_ended [of st w out st'] Inl x
    obtain j where "effects st' = effects st @ replicate j Terminate" by auto
    moreover have "snd (run_block_search st w) = st'" using Inl x by (simp add: run_block_search_def)
    ultimately show ?thesis by simp
  next
    case (Inr y)
    obtain st3 err n ec where y: "y = (st3, err, n, ec)" by (cases y)
    have r: "read_until_exit st w = Inr (st3, err, n, ec)" using Inr y by simp
    from read_until_exit_test [OF r]
    obtain j where j: "effects st3 = effects st @ replicate j Terminate" by blast
    show ?thesis
    proof (cases "finish_block_search st3 err n ec")
      case (Inl z)
      obtain e st4 where z: "z = (e, st4)" by (cases z)
      from finish_block_search_result(2) [of st3 err n ec e st4] Inl z
      obtain rc where s4: "st4 = st3\<lparr>retry_count := rc\<rparr>" by auto
      have "snd (run_block_search st w) = st4\<lparr>is_running := False\<rparr>"
        using r Inl z by (simp add: run_block_search_def)
      then show ?thesis using s4 j by simp
    next
      case (Inr st4)
      have s: "snd (run_block_search st w) = st4" using r Inr by (simp add: run_block_search_def)
      from finish_block_search_result(1) [OF Inr] show ?thesis using s j by auto
    qed
  qed
  then show ?thesis by (auto simp: new_effects_def)
qed

lemma completion_queued_iff:
  "Idle_add_on_block_completed \<in> set (new_effects st (snd (run_block_search st w)))
   \<longleftrightarrow> (\<exists>st3 err n ec. read_until_exit st w = Inr (st3, err, n, ec)
          \<and> \<not> is_paused st3 \<and> \<not> err \<and> (ec = 0 \<or> ec = - 15) \<and> 10 \<le> n)"
  using run_block_search_new_effects [of st w] by auto

lemma no_thread_started:
  "Thread_run_block_search \<notin> set (new_effects st (snd (run_block_search st w)))"
  using run_block_search_new_effects [of st w] by auto

lemma on_stop_fields:
  "scan_db (on_stop st) = scan_db st" "current_block (on_stop st) = current_block st"
  "\<not> is_running (on_stop st)" "process (on_stop st) = None"
  "current_block_index (on_stop st) = current_block_index st"
  by (simp_all add: on_stop_def save_current_state_def terminate_process_def Let_def)

lemma find_next_block_loop_scan_db:
  "scan_db (snd (find_next_block_loop bm st n)) = scan_db st"
proof (induction bm st n rule: find_next_block_loop.induct)
  case (1 bm st checks_done)
  show ?case
    by (subst find_next_block_loop.simps)
       (use 1 in \<open>auto simp: Let_def simp del: find_next_block_loop.simps\<close>)
qed

lemma find_next_block_scan_db: "scan_db (snd (find_next_block st)) = scan_db st"
  by (simp add: find_next_block_def find_next_block_loop_scan_db split: option.splits)

lemma on_block_completed_db:
  "scan_db (snd (on_block_completed st))
     = (case current_block st of
          None \<Rightarrow> scan_db st
        | Some (block_start, block_end) \<Rightarrow>
            (case add_my_block (scan_db st) block_start block_end (keys_checked st + session_keys st) of
               Inl e \<Rightarrow> scan_db st
             | Inr db \<Rightarrow> db))"
proof (cases "current_block st")
  case None
  then show ?thesis by (simp add: on_block_completed_def)
next
  case (Some b)
  obtain bs be where b: "b = (bs, be)" by (cases b)
  show ?thesis
  proof (cases "add_my_block (scan_db st) bs be (keys_checked st + session_keys st)")
    case (Inl e)
    then show ?thesis using Some b by (simp add: on_block_completed_def Let_def)
  next
    case (Inr db)
    define st2 where "st2 = st\<lparr>retry_count := Some 0, scan_db := db\<rparr>"
    define st2' where "st2' = st2\<lparr>current_block_index := current_block_index st2 + 1, keys_checked := 0\<rparr>"
    have f: "scan_db (snd (find_next_block st2')) = db"
      by (simp add: find_next_block_scan_db st2'_def st2_def)
    obtain out st3 where o: "find_next_block st2' = (out, st3)" by (cases "find_next_block st2'")
    then have s3: "scan_db st3 = db" using f by simp
    have "scan_db (snd (on_block_completed st)) = db"
      using Some b Inr o s3
      by (cases out)
         (auto simp: on_block_completed_def Let_def st2_def st2'_def time_sleep_raises
                     on_stop_fields terminate_process_def split: option.splits)
    then show ?thesis using Some b Inr by simp
  qed
qed

lemma update_progress_complete:
  assumes "update_progress st = Inr r" "current_block st = Some (bs, be)"
    "be - bs + 1 \<le> keys_checked st + session_keys st"
  shows "\<not> is_running r \<and> effects r = effects st @ (if process st \<noteq> None then [Terminate] else [])"
  using assms
  by (auto simp: update_progress_def Let_def terminate_process_def split: if_splits option.splits)

lemma float_conversion_small: "\<bar>n\<bar> < 2 ^ 64 \<Longrightarrow> \<not> (2 ^ 1024 - 2 ^ 970 \<le> \<bar>n :: int\<bar>)"
proof -
  assume a: "\<bar>n\<bar> < 2 ^ 64"
  have "true_divide_raises n 1 = None" by (rule true_divide_small) (use a in simp_all)
  then show ?thesis by (simp add: true_divide_raises_def split: if_splits)
qed

lemma update_progress_scan_db:
  "update_progress st = Inr st' \<Longrightarrow> scan_db st' = scan_db st"
  "update_progress st = Inl (e, st') \<Longrightarrow> scan_db st' = scan_db st"
  by (auto simp: update_progress_def Let_def terminate_process_def split: if_splits option.splits)

lemma process_line_scan_db:
  "process_line st line err = Inr (st', err') \<Longrightarrow> scan_db st' = scan_db st"
  "process_line st line err = Inl (e, st') \<Longrightarrow> scan_db st' = scan_db st"
proof -
  assume a: "process_line st line err = Inr (st', err')"
  show "scan_db st' = scan_db st"
  proof (cases "keys_search line")
    case None
    then show ?thesis using a
      by (auto simp: process_line_def Let_def terminate_process_def split: if_splits)
  next
    case (Some g)
    then have "scan_db st' = scan_db st
       \<or> (\<exists>k. update_progress (st\<lparr>session_keys := k\<rparr>) = Inr st')"
      using a by (auto simp: process_line_def Let_def terminate_process_def split: if_splits sum.splits)
    then show ?thesis using update_progress_scan_db(1) by fastforce
  qed
next
  assume a: "process_line st line err = Inl (e, st')"
  show "scan_db st' = scan_db st"
  proof (cases "keys_search line")
    case None
    then show ?thesis using a
      by (auto simp: process_line_def Let_def split: if_splits)
  next
    case (Some g)
    then have "scan_db st' = scan_db st
       \<or> (\<exists>k. update_progress (st\<lparr>session_keys := k\<rparr>) = Inl (e, st'))"
      using a by (auto simp: process_line_def Let_def split: if_splits sum.splits)
    then show ?thesis using update_progress_scan_db(2) by fastforce
  qed
qed

lemma scan_db_assign: "scan_db (assign st w) = scan_db st"
  by (cases w) simp_all

lemma scan_db_assignments: "scan_db (foldl assign st ws) = scan_db st"
  by (induction ws arbitrary: st) (simp_all add: scan_db_assign)

lemma read_loop_scan_db:
  "read_loop es st err n = Inr (st', err', n') \<Longrightarrow> scan_db st' = scan_db st"
  "read_loop es st err n = Inl (e, st') \<Longrightarrow> scan_db st' = scan_db st"
proof (induction es arbitrary: st err n)
  case Nil
  { case 1 then show ?case by simp }
  { case 2 then show ?case by simp }
next
  case (Cons ev rest)
  { case 1
    show ?case
    proof (cases ev)
      case (Other_thread w)
      then have "read_loop rest (assign st w) err n = Inr (st', err', n')" using 1 by simp
      from Cons.IH(1) [OF this] show ?thesis by (simp add: scan_db_assign)
    next
      case (Line raw)
      show ?thesis
      proof (cases "raw = [] \<or> \<not> is_running st \<or> is_paused st")
        case True
        then show ?thesis using 1 Line by (auto split: if_splits)
      next
        case False
        show ?thesis
        proof (cases "py_strip raw = []")
          case True
          then have "read_loop rest st err n = Inr (st', err', n')"
            using 1 False Line by (auto simp: Let_def)
          from Cons.IH(1) [OF this] show ?thesis .
        next
          case ne: False
          show ?thesis
          proof (cases "process_line st (py_strip raw) err")
            case (Inl x)
            then show ?thesis using 1 False ne Line by (simp add: Let_def)
          next
            case (Inr y)
            obtain st1 err1 where y: "y = (st1, err1)" by (cases y)
            have "read_loop rest st1 err1 (n + 1) = Inr (st', err', n')"
              using 1 False ne Inr y Line by (simp add: Let_def)
            from Cons.IH(1) [OF this] have "scan_db st' = scan_db st1" .
            moreover have "scan_db st1 = scan_db st"
              using process_line_scan_db(1) Inr y by blast
            ultimately show ?thesis by simp
          qed
        qed
      qed
    qed }
  { case 2
    show ?case
    proof (cases ev)
      case (Other_thread w)
      then have "read_loop rest (assign st w) err n = Inl (e, st')" using 2 by simp
      from Cons.IH(2) [OF this] show ?thesis by (simp add: scan_db_assign)
    next
      case (Line raw)
      show ?thesis
      proof (cases "raw = [] \<or> \<not> is_running st \<or> is_paused st")
        case True
        then show ?thesis using 2 Line by (auto split: if_splits)
      next
        case False
        show ?thesis
        proof (cases "py_strip raw = []")
          case True
          then have "read_loop rest st err n = Inl (e, st')"
            using 2 False Line by (auto simp: Let_def)
          from Cons.IH(2) [OF this] show ?thesis .
        next
          case ne: False
          show ?thesis
          proof (cases "process_line st (py_strip raw) err")
            case (Inl x)
            then have "x = (e, st')" using 2 False ne Line by (simp add: Let_def)
            then show ?thesis using Inl process_line_scan_db(2) by blast
          next
            case (Inr y)
            obtain st1 err1 where y: "y = (st1, err1)" by (cases y)
            have "read_loop rest st1 err1 (n + 1) = Inl (e, st')"
              using 2 False ne Inr y Line by (simp add: Let_def)
            from Cons.IH(2) [OF this] have "scan_db st' = scan_db st1" .
            moreover have "scan_db st1 = scan_db st"
              using process_line_scan_db(1) Inr y by blast
            ultimately show ?thesis by simp
          qed
        qed
      qed
    qed }
qed

lemma finish_block_search_scan_db:
  "finish_block_search st err n ec = Inr st' \<Longrightarrow> scan_db st' = scan_db st"
  "finish_block_search st err n ec = Inl (e, st') \<Longrightarrow> scan_db st' = scan_db st"
  using finish_block_search_result(1) [of st err n ec st']
        finish_block_search_result(2) [of st err n ec e st'] by auto

lemma read_until_exit_scan_db:
  "read_until_exit st w = Inr (st3, err, n, ec) \<Longrightarrow> scan_db st3 = scan_db st"
  "read_until_exit st w = Inl (out, st') \<Longrightarrow> scan_db st' = scan_db st"
proof -
  assume a: "read_until_exit st w = Inr (st3, err, n, ec)"
  then obtain bs be where cb: "current_block st = Some (bs, be)"
    by (cases "current_block st") (auto simp: read_until_exit_def)
  define st0 where "st0 = st\<lparr>session_keys := 0\<rparr>"
  from a cb obtain cmd st1 where
    r: "read_loop (events w) (st0\<lparr>process := Some (Popen cmd)\<rparr>) False 0 = Inr (st1, err, n)"
    and s3: "st3 = foldl assign (foldl assign st1 (before_wait w)) (before_test w)"
    by (auto simp: read_until_exit_def st0_def Let_def split: sum.splits prod.splits if_splits)
  from read_loop_scan_db(1) [OF r] show "scan_db st3 = scan_db st"
    using s3 by (simp add: scan_db_assignments st0_def)
next
  assume a: "read_until_exit st w = Inl (out, st')"
  show "scan_db st' = scan_db st"
  proof (cases "current_block st")
    case None
    then show ?thesis using a by (simp add: read_until_exit_def)
  next
    case (Some b)
    obtain bs be where b: "b = (bs, be)" by (cases b)
    define st0 where "st0 = st\<lparr>session_keys := 0\<rparr>"
    show ?thesis
    proof (cases "build_keyhunt_command st0 bs be")
      case (Inl e)
      then show ?thesis using a Some b by (auto simp: read_until_exit_def st0_def Let_def)
    next
      case (Inr cmd)
      show ?thesis
      proof (cases "read_loop (events w) (st0\<lparr>process := Some (Popen cmd)\<rparr>) False 0")
        case (Inl x)
        obtain e st1 where x: "x = (e, st1)" by (cases x)
        have rl: "read_loop (events w) (st0\<lparr>process := Some (Popen cmd)\<rparr>) False 0 = Inl (e, st1)"
          using Inl x by simp
        from read_loop_scan_db(2) [OF rl] have "scan_db st1 = scan_db st" by (simp add: st0_def)
        then show ?thesis
          using a Some b Inr Inl x
          by (auto simp: read_until_exit_def st0_def Let_def split: if_splits)
      next
        case r: (Inr y)
        then show ?thesis
          using a Some b Inr
          by (auto simp: read_until_exit_def st0_def Let_def split: if_splits prod.splits)
      qed
    qed
  qed
qed

lemma run_block_search_scan_db: "scan_db (snd (run_block_search st w)) = scan_db st"
proof (cases "read_until_exit st w")
  case (Inl x)
  obtain out st' where x: "x = (out, st')" by (cases x)
  then show ?thesis using Inl read_until_exit_scan_db(2) [of st w out st']
    by (simp add: run_block_search_def)
next
  case (Inr y)
  obtain st3 err n ec where y: "y = (st3, err, n, ec)" by (cases y)
  have s3: "scan_db st3 = scan_db st" using read_until_exit_scan_db(1) Inr y by blast
  show ?thesis
  proof (cases "finish_block_search st3 err n ec")
    case (Inl z)
    obtain e st4 where z: "z = (e, st4)" by (cases z)
    then show ?thesis
      using Inl \<open>read_until_exit st w = Inr y\<close> y s3 finish_block_search_scan_db(2) [of st3 err n ec e st4]
      by (simp add: run_block_search_def)
  next
    case (Inr st4)
    then show ?thesis
      using \<open>read_until_exit st w = Inr y\<close> y s3 finish_block_search_scan_db(1) [of st3 err n ec st4]
      by (simp add: run_block_search_def)
  qed
qed

subsection \<open>The small session\<close>

lemma fresh_scenario_start:
  "on_start ((gui_init \<lparr>pool_scanned = Map.empty, my_scanned = []\<rparr> None)
              \<lparr>range_start_entry := ''400'', range_end_entry := ''4FF'', block_size_entry := ''40''\<rparr>)
   = (Returned,
      (gui_init \<lparr>pool_scanned = Map.empty, my_scanned = []\<rparr> None)
       \<lparr>range_start_entry := ''400'', range_end_entry := ''4FF'', block_size_entry := ''40'',
        block_mgr := Some \<lparr>range_start = 0x400, range_end = 0x4FF, block_size = 0x40, total_blocks = 4\<rparr>,
        is_running := True, current_block := Some (0x400, 0x43F), keys_checked := 0,
        effects := [Thread_run_block_search]\<rparr>)"
  by (simp add: on_start_def gui_init_def load_previous_state_def load_state_def int16_eval
      BlockManager_init_def format_int_small true_divide_small find_next_block_def
      find_next_block_loop_found get_block_def is_block_scanned_def no_pattern_filter)

lemma example_start_eq:
  "example_start = (gui_init \<lparr>pool_scanned = Map.empty, my_scanned = []\<rparr> None)
       \<lparr>range_start_entry := ''400'', range_end_entry := ''4FF'', block_size_entry := ''40'',
        block_mgr := Some \<lparr>range_start = 0x400, range_end = 0x4FF, block_size = 0x40, total_blocks = 4\<rparr>,
        is_running := True, current_block := Some (0x400, 0x43F), keys_checked := 0,
        effects := [Thread_run_block_search]\<rparr>"
  unfolding example_start_def example_entries_def fresh_scenario_start by simp

lemma example_start_fields:
  "current_block example_start = Some (0x400, 0x43F)" "keys_checked example_start = 0"
  "is_running example_start" "\<not> is_paused example_start"
  "effects example_start = [Thread_run_block_search]"
  "scan_db example_start = \<lparr>pool_scanned = Map.empty, my_scanned = []\<rparr>"
  "retry_count example_start = None" "current_block_index example_start = 0"
  "process example_start = None"
  "keyhunt_path example_start = ''./KeyHunt-Cuda''" "gpu_id example_start = ''0''"
  "target_entry example_start = ''1PWo3JeB9jrGwfHDNpdGK54CRas7fsVzXU''"
  "block_mgr example_start
     = Some \<lparr>range_start = 0x400, range_end = 0x4FF, block_size = 0x40, total_blocks = 4\<rparr>"
  by (simp_all add: example_start_eq gui_init_def load_previous_state_def load_state_def)

text \<open>The command line for block 0 of the small session.\<close>

lemma example_command:
  assumes "current_block st = Some (0x400, 0x43F)" "keys_checked st = 0"
  shows "build_keyhunt_command st 0x400 0x43F
     = Inr [keyhunt_path st, ''-t'', ''0'', ''-g'', ''--gpui'', gpu_id st,
            ''--gpux'', ''256,256'', ''-m'', ''address'', ''--coin'', ''BTC'',
            ''--range'', ''400:43f'', ''-o'', ''Found.txt'', target_entry st]"
proof -
  have a: "actual_start st 0x400 0x43F = 0x400" using assms by (simp add: actual_start_def)
  have h: "hex_lower 0x400 = ''400''" "hex_lower 0x43F = ''43f''" by (simp_all add: hex_eval)
  have f: "\<not> format_int_raises 64" by (rule format_int_small) simp
  have g: "\<not> (2 ^ 1024 - 2 ^ 970 \<le> \<bar>64 :: int\<bar>)" by (rule float_conversion_small) simp
  show ?thesis unfolding build_keyhunt_command_def a Let_def using assms f g h by simp
qed

lemma progress_line_strip:
  "py_strip (''[GPU: 226.00 Mk/s] [T: 32]'' @ [CHR 0x0A]) = ''[GPU: 226.00 Mk/s] [T: 32]''"
  by (simp add: py_strip_def py_isspace_def code_point_def)

lemma progress_line_tests:
  "\<not> is_error_line ''[GPU: 226.00 Mk/s] [T: 32]''"
  "\<not> is_match_line ''[GPU: 226.00 Mk/s] [T: 32]''"
  "speed_search ''[GPU: 226.00 Mk/s] [T: 32]'' = Some ''226.00''"
  "keys_search ''[GPU: 226.00 Mk/s] [T: 32]'' = Some ''32''"
  "\<not> float_raises ''226.00''"
  "py_int10 ''32'' = Inr 32"
  by (simp_all add: is_error_line_def is_match_line_def speed_match_at_def keys_match_at_def
      py_isdigit_def py_isspace_def code_point_def float_raises_def py_int10_def digit_value_def
      max_str_digits_def)

lemma progress_line_processed:
  assumes "current_block st = Some (0x400, 0x43F)" "keys_checked st = 0"
  shows "process_line st ''[GPU: 226.00 Mk/s] [T: 32]'' err = Inr (st\<lparr>session_keys := 32\<rparr>, err)"
proof -
  have u: "update_progress (st\<lparr>session_keys := 32\<rparr>) = Inr (st\<lparr>session_keys := 32\<rparr>)"
    using assms by (simp add: update_progress_def format_int_small true_divide_small)
  show ?thesis
    by (simp add: process_line_def progress_line_tests u del: speed_search.simps keys_search.simps)
qed

lemma progress_line_step:
  assumes "current_block st = Some (0x400, 0x43F)" "keys_checked st = 0"
    "is_running st" "\<not> is_paused st"
  shows "read_loop (Line ''[GPU: 226.00 Mk/s] [T: 32]\<newline>'' # rest) st err n
         = read_loop rest (st\<lparr>session_keys := 32\<rparr>) err (n + 1)"
proof -
  have s: "py_strip ''[GPU: 226.00 Mk/s] [T: 32]\<newline>'' = ''[GPU: 226.00 Mk/s] [T: 32]''"
    using progress_line_strip by simp
  show ?thesis
    unfolding read_loop.simps s Let_def progress_line_processed [OF assms(1,2)]
    using assms(3,4) by simp
qed

lemma progress_lines_read:
  assumes "current_block st = Some (0x400, 0x43F)" "keys_checked st = 0"
    "is_running st" "\<not> is_paused st"
  shows "read_loop (replicate (Suc k) (Line ''[GPU: 226.00 Mk/s] [T: 32]\<newline>'') @ rest) st err n
         = read_loop rest (st\<lparr>session_keys := 32\<rparr>) err (n + 1 + int k)"
  using assms
proof (induction k arbitrary: st n)
  case 0
  show ?case using progress_line_step [OF 0] by simp
next
  case (Suc k)
  have "read_loop (replicate (Suc (Suc k)) (Line ''[GPU: 226.00 Mk/s] [T: 32]\<newline>'') @ rest) st err n
        = read_loop (replicate (Suc k) (Line ''[GPU: 226.00 Mk/s] [T: 32]\<newline>'') @ rest)
            (st\<lparr>session_keys := 32\<rparr>) err (n + 1)"
    using progress_line_step [OF Suc.prems] by simp
  also have "\<dots> = read_loop rest (st\<lparr>session_keys := 32\<rparr>\<lparr>session_keys := 32\<rparr>) err (n + 1 + 1 + int k)"
    by (rule Suc.IH) (use Suc.prems in simp_all)
  finally show ?case by (simp add: add.assoc del: read_loop.simps replicate.simps)
qed

lemma ten_progress_lines_read:
  assumes "current_block st = Some (0x400, 0x43F)" "keys_checked st = 0"
    "is_running st" "\<not> is_paused st"
  shows "read_loop (replicate 10 (Line ''[GPU: 226.00 Mk/s] [T: 32]\<newline>'') @ rest) st err 0
         = read_loop rest (st\<lparr>session_keys := 32\<rparr>) err 10"
proof -
  have "replicate 10 (Line ''[GPU: 226.00 Mk/s] [T: 32]\<newline>'')
        = replicate (Suc 9) (Line ''[GPU: 226.00 Mk/s] [T: 32]\<newline>'')"
    by (subst numeral_eq_Suc) simp
  then show ?thesis using progress_lines_read [OF assms, of 9 rest err 0] by simp
qed

lemma ten_progress_lines_stripped:
  "stripped_lines (printed_lines (replicate 10 (Line ''[GPU: 226.00 Mk/s] [T: 32]\<newline>'') @ rest))
   = replicate 10 ''[GPU: 226.00 Mk/s] [T: 32]'' @ stripped_lines (printed_lines rest)"
proof -
  have "stripped_lines (printed_lines (replicate k (Line ''[GPU: 226.00 Mk/s] [T: 32]\<newline>'') @ rest))
        = replicate k ''[GPU: 226.00 Mk/s] [T: 32]'' @ stripped_lines (printed_lines rest)" for k
    by (induction k) (simp_all add: stripped_lines_Cons progress_line_strip [simplified])
  then show ?thesis .
qed

lemmas ten_progress_lines_only = ten_progress_lines_read [where rest = "[]", simplified]

lemma error_line_tests:
  "py_strip ''ERROR: bad\<newline>'' = ''ERROR: bad''" "is_error_line ''ERROR: bad''"
  by (simp_all add: py_strip_def py_isspace_def code_point_def is_error_line_def)

lemma example_run:
  "run_block_search example_start example_worker
     = (Returned,
        example_start\<lparr>session_keys := 32,
          process := Some (Popen [''./KeyHunt-Cuda'', ''-t'', ''0'', ''-g'', ''--gpui'', ''0'',
            ''--gpux'', ''256,256'', ''-m'', ''address'', ''--coin'', ''BTC'',
            ''--range'', ''400:43f'', ''-o'', ''Found.txt'',
            ''1PWo3JeB9jrGwfHDNpdGK54CRas7fsVzXU'']),
          effects := [Thread_run_block_search, Idle_add_on_block_completed]\<rparr>)"
  by (simp add: run_block_search_def read_until_exit_def example_worker_def example_start_fields
        example_command ten_progress_lines_only finish_block_search_def Let_def
      del: read_loop.simps replicate.simps)

lemma error_line_read:
  "is_running st \<Longrightarrow> \<not> is_paused st \<Longrightarrow>
   read_loop [Line ''ERROR: bad\<newline>''] st err n = Inr (st, True, n + 1)"
  by (simp add: error_line_tests process_line_def)

lemma writes_read:
  "read_loop [Other_thread a, Other_thread b] st err n = Inr (assign (assign st a) b, err, n)"
  by simp

lemma error_run:
  "run_block_search example_start error_worker
     = (Returned,
        example_start\<lparr>session_keys := 32,
          process := Some (Popen [''./KeyHunt-Cuda'', ''-t'', ''0'', ''-g'', ''--gpui'', ''0'',
            ''--gpux'', ''256,256'', ''-m'', ''address'', ''--coin'', ''BTC'',
            ''--range'', ''400:43f'', ''-o'', ''Found.txt'',
            ''1PWo3JeB9jrGwfHDNpdGK54CRas7fsVzXU'']),
          retry_count := Some 0, is_running := False\<rparr>)"
  by (simp add: run_block_search_def read_until_exit_def error_worker_def example_start_fields
        example_command ten_progress_lines_read error_line_read finish_block_search_def Let_def
      del: read_loop.simps replicate.simps)

lemma paused_run:
  "run_block_search example_start paused_worker
     = (Returned,
        example_start\<lparr>session_keys := 32,
          process := Some (Popen [''./KeyHunt-Cuda'', ''-t'', ''0'', ''-g'', ''--gpui'', ''0'',
            ''--gpux'', ''256,256'', ''-m'', ''address'', ''--coin'', ''BTC'',
            ''--range'', ''400:43f'', ''-o'', ''Found.txt'',
            ''1PWo3JeB9jrGwfHDNpdGK54CRas7fsVzXU'']),
          is_paused := True, keys_checked := 32,
          retry_count := Some 0, is_running := False\<rparr>)"
  by (simp add: run_block_search_def read_until_exit_def paused_worker_def example_start_fields
        example_command ten_progress_lines_read writes_read finish_block_search_def Let_def
      del: read_loop.simps replicate.simps)

lemma silent_run:
  "run_block_search example_start (silent_worker\<lparr>wait_result := rc\<rparr>)
     = (Returned,
        example_start\<lparr>session_keys := 0,
          process := Some (Popen [''./KeyHunt-Cuda'', ''-t'', ''0'', ''-g'', ''--gpui'', ''0'',
            ''--gpux'', ''256,256'', ''-m'', ''address'', ''--coin'', ''BTC'',
            ''--range'', ''400:43f'', ''-o'', ''Found.txt'',
            ''1PWo3JeB9jrGwfHDNpdGK54CRas7fsVzXU'']),
          retry_count := Some (if rc = None \<or> rc = Some (- 1) then 1 else 0),
          is_running := False\<rparr>)"
  by (cases rc)
     (simp_all add: run_block_search_def read_until_exit_def silent_worker_def example_start_fields
        example_command finish_block_search_def Let_def time_sleep_raises)

end
